theory Spec2Isabelle
  imports Main "HOL-Library.Word"
begin

section \<open>Bytes, digests and errors\<close>

text \<open>
  Go's \<open>[]byte\<close> is a list of 8-bit words and Go's \<open>string\<close> is a list of
  characters (bytes). \<open>int64\<close> is a 64-bit word read as two's complement;
  \<open>time.Duration\<close> is an \<open>int64\<close> counting nanoseconds.
\<close>

type_synonym byte = "8 word"
type_synonym bytes = "byte list"
type_synonym int64 = "64 word"

text \<open>The conversion \<open>[]byte(s)\<close> of a string.\<close>

definition bytes_of_string :: "string \<Rightarrow> bytes" where
  "bytes_of_string s = map of_char s"

text \<open>
  \<open>hex.EncodeToString\<close> and \<open>fmt.Sprintf("%x", ...)\<close> on a byte slice: two
  lower-case hexadecimal digits for every byte, high nibble first.
\<close>

definition hex_digit :: "nat \<Rightarrow> char" where
  "hex_digit n = ''0123456789abcdef'' ! (n mod 16)"

definition hex_encode :: "bytes \<Rightarrow> string" where
  "hex_encode bs = concat (map (\<lambda>b. [hex_digit (unat b div 16), hex_digit (unat b mod 16)]) bs)"

text \<open>
  The errors the core returns. \<open>IOFailure\<close> stands for any error value handed up by
  the operating system, a reader or a writer; \<open>NotExist\<close> is the error for which
  \<open>os.IsNotExist\<close> holds; \<open>Cancelled\<close> is \<open>ctx.Err()\<close>. The other
  constructors are the errors the repository builds itself, with the values it
  formats into the message.
\<close>

datatype error =
    EOF
  | NotExist
  | IOFailure string
  | Cancelled
  | ModelNotFound string
  | BlockNotFound
  | ChunkReadFailed nat error
  | ChunkWriteFailed nat error
  | MaxBackoffReached error

text \<open>
  \<open>filepath.Join\<close> of a base directory and one name. Identifiers are UUIDs and
  digests are hexadecimal, so the cleaning of \<open>..\<close> and of repeated separators that
  \<open>filepath.Join\<close> also performs never applies to them.
\<close>

definition filepath_Join :: "string \<Rightarrow> string \<Rightarrow> string" where
  "filepath_Join base name = base @ ''/'' @ name"

section \<open>Block store (pkg/blocks/store.go)\<close>

record Block =
  Block_Hash :: string
  Block_Size :: int64
  Block_Data :: bytes

record Store =
  Store_basePath :: string

text \<open>
  The block directory: the files by path, and a count of the \<open>os.WriteFile\<close> calls
  that were issued against it (ghost state, so that "no write was performed" can be
  said). The operating system may refuse an operation: \<open>stat_fails p\<close> says that
  \<open>os.Stat\<close> returns an error for \<open>p\<close> although the file is there, and
  \<open>bwrite_err\<close>, \<open>bread_err\<close> and \<open>bremove_err\<close> give the error of a write, a read and
  a removal of \<open>p\<close>, if any. A refused write leaves the file as it was.
\<close>

record blockfs =
  files :: "string \<rightharpoonup> bytes"
  writes :: nat

record blockos =
  stat_fails :: "string \<Rightarrow> bool"
  bwrite_err :: "string \<Rightarrow> error option"
  bread_err :: "string \<Rightarrow> error option"
  bremove_err :: "string \<Rightarrow> error option"

text \<open>\<open>os.Stat(p)\<close>: \<open>None\<close> is the \<open>nil\<close> error.\<close>

definition os_Stat :: "blockos \<Rightarrow> blockfs \<Rightarrow> string \<Rightarrow> error option" where
  "os_Stat sys fs p =
     (case files fs p of
        None \<Rightarrow> Some NotExist
      | Some _ \<Rightarrow> (if stat_fails sys p then Some (IOFailure ''stat'') else None))"

definition os_WriteFile :: "blockos \<Rightarrow> blockfs \<Rightarrow> string \<Rightarrow> bytes \<Rightarrow> error option \<times> blockfs" where
  "os_WriteFile sys fs p data =
     (case bwrite_err sys p of
        Some e \<Rightarrow> (Some e, fs\<lparr>writes := Suc (writes fs)\<rparr>)
      | None \<Rightarrow> (None, fs\<lparr>files := (files fs)(p \<mapsto> data), writes := Suc (writes fs)\<rparr>))"

definition os_ReadFile :: "blockos \<Rightarrow> blockfs \<Rightarrow> string \<Rightarrow> error + bytes" where
  "os_ReadFile sys fs p =
     (case bread_err sys p of
        Some e \<Rightarrow> Inl e
      | None \<Rightarrow> (case files fs p of None \<Rightarrow> Inl NotExist | Some data \<Rightarrow> Inr data))"

definition os_Remove :: "blockos \<Rightarrow> blockfs \<Rightarrow> string \<Rightarrow> error option \<times> blockfs" where
  "os_Remove sys fs p =
     (case bremove_err sys p of
        Some e \<Rightarrow> (Some e, fs)
      | None \<Rightarrow>
          (case files fs p of
             None \<Rightarrow> (Some NotExist, fs)
           | Some _ \<Rightarrow> (None, fs\<lparr>files := (files fs)(p := None)\<rparr>)))"

text \<open>
  \<open>calculateHash\<close>: the hexadecimal SHA-256 digest of the data. SHA-256 is the
  standard library's; it enters as the parameter \<open>sha256\<close>.
\<close>

definition calculateHash :: "(bytes \<Rightarrow> bytes) \<Rightarrow> bytes \<Rightarrow> string" where
  "calculateHash sha256 data = hex_encode (sha256 data)"

definition getBlockPath :: "Store \<Rightarrow> string \<Rightarrow> string" where
  "getBlockPath s hash = filepath_Join (Store_basePath s) hash"

text \<open>
  \<open>StoreBlock\<close> returns the digest and the directory it leaves. When the file is
  already there (\<open>os.Stat\<close> gives no error) nothing is written; a failed write
  returns the error in place of the digest.
\<close>

definition StoreBlock ::
  "(bytes \<Rightarrow> bytes) \<Rightarrow> blockos \<Rightarrow> Store \<Rightarrow> blockfs \<Rightarrow> bytes \<Rightarrow> (error + string) \<times> blockfs" where
  "StoreBlock sha256 sys s fs data =
     (let hash = calculateHash sha256 data;
          blockPath = getBlockPath s hash
      in if os_Stat sys fs blockPath = None then (Inr hash, fs)
         else (case os_WriteFile sys fs blockPath data of
                 (Some err, fs') \<Rightarrow> (Inl err, fs')
               | (None, fs') \<Rightarrow> (Inr hash, fs')))"

text \<open>
  \<open>GetBlock\<close>: a missing file is "block not found", any other read error is
  returned as it is, and the block is built from the bytes read and the hash asked for.
\<close>

definition GetBlock :: "blockos \<Rightarrow> Store \<Rightarrow> blockfs \<Rightarrow> string \<Rightarrow> error + Block" where
  "GetBlock sys s fs hash =
     (let blockPath = getBlockPath s hash
      in case os_ReadFile sys fs blockPath of
           Inl err \<Rightarrow> (if err = NotExist then Inl BlockNotFound else Inl err)
         | Inr data \<Rightarrow>
             Inr \<lparr>Block_Hash = hash, Block_Size = of_nat (length data), Block_Data = data\<rparr>)"

definition DeleteBlock :: "blockos \<Rightarrow> Store \<Rightarrow> blockfs \<Rightarrow> string \<Rightarrow> error option \<times> blockfs" where
  "DeleteBlock sys s fs hash = os_Remove sys fs (getBlockPath s hash)"

text \<open>
  The invariant of a block directory that only \<open>StoreBlock\<close> and \<open>DeleteBlock\<close>
  change: every file sits under the digest of its own content.
\<close>

definition digest_addressed :: "(bytes \<Rightarrow> bytes) \<Rightarrow> Store \<Rightarrow> blockfs \<Rightarrow> bool" where
  "digest_addressed sha256 s fs =
     (\<forall>p c. files fs p = Some c \<longrightarrow> p = getBlockPath s (calculateHash sha256 c))"

section \<open>Chunked object storage (package core: storage and model metadata)\<close>

record ModelMetadata =
  ID :: string
  Name :: string
  Format :: string
  Size :: int64
  Hash :: string
  Chunks :: "string list"
  CreatedAt :: int
  Owner :: string
  Permissions :: "string list"

record ModelChunk =
  Chunk_ID :: string
  Chunk_Data :: bytes
  Chunk_Index :: nat
  Chunk_ModelID :: string
  Chunk_Hash :: string

text \<open>
  \<open>CalculateHash\<close> of a catalog entry: the hexadecimal SHA-256 digest of the
  concatenation \<open>ID + Name + Format\<close>.
\<close>

definition CalculateHash :: "(bytes \<Rightarrow> bytes) \<Rightarrow> ModelMetadata \<Rightarrow> string" where
  "CalculateHash sha256 m = hex_encode (sha256 (bytes_of_string (ID m @ Name m @ Format m)))"

definition ChunkSize :: nat where
  "ChunkSize = 1024 * 1024 * 5"

record Storage =
  basePath :: string
  metadata :: "string \<rightharpoonup> ModelMetadata"

text \<open>
  The disk under \<open>basePath\<close>: every object directory, by its path, with its chunk
  files by index (the file \<open>chunk_i\<close> of the directory is the entry \<open>i\<close>).
\<close>

type_synonym disk = "string \<rightharpoonup> (nat \<rightharpoonup> bytes)"

text \<open>
  What one operation receives from outside the program:
  \<^item> \<open>uuid k\<close>, the result of its \<open>k\<close>-th call to \<open>generateUUID\<close>, and \<open>now\<close>, the
    result of \<open>time.Now()\<close>;
  \<^item> \<open>ctx_done k\<close>, whether \<open>ctx.Done()\<close> is ready at the \<open>k\<close>-th time a loop
    polls it (a \<open>select\<close> with a \<open>default\<close> branch takes the \<open>Done\<close> branch exactly
    when it is ready);
  \<^item> the errors of the operating system: of \<open>os.MkdirAll\<close> and \<open>os.RemoveAll\<close> on a
    directory, and of \<open>os.WriteFile\<close> and \<open>os.ReadFile\<close> on the chunk file with a
    given index in a directory. A refused operation leaves the disk as it was.
\<close>

record env =
  uuid :: "nat \<Rightarrow> string"
  now :: int
  ctx_done :: "nat \<Rightarrow> bool"
  mkdir_err :: "string \<Rightarrow> error option"
  write_err :: "string \<Rightarrow> nat \<Rightarrow> error option"
  read_err :: "string \<Rightarrow> nat \<Rightarrow> error option"
  remove_err :: "string \<Rightarrow> error option"

definition os_MkdirAll :: "env \<Rightarrow> disk \<Rightarrow> string \<Rightarrow> error option \<times> disk" where
  "os_MkdirAll e d p =
     (case mkdir_err e p of
        Some err \<Rightarrow> (Some err, d)
      | None \<Rightarrow> (None, (case d p of None \<Rightarrow> d(p \<mapsto> Map.empty) | Some _ \<Rightarrow> d)))"

definition os_WriteChunk :: "env \<Rightarrow> disk \<Rightarrow> string \<times> nat \<Rightarrow> bytes \<Rightarrow> error option \<times> disk" where
  "os_WriteChunk e d path data =
     (case write_err e (fst path) (snd path) of
        Some err \<Rightarrow> (Some err, d)
      | None \<Rightarrow>
          (case d (fst path) of
             None \<Rightarrow> (Some NotExist, d)
           | Some dir \<Rightarrow> (None, d(fst path \<mapsto> dir(snd path \<mapsto> data)))))"

definition os_ReadChunk :: "env \<Rightarrow> disk \<Rightarrow> string \<times> nat \<Rightarrow> error + bytes" where
  "os_ReadChunk e d path =
     (case read_err e (fst path) (snd path) of
        Some err \<Rightarrow> Inl err
      | None \<Rightarrow>
          (case d (fst path) of
             None \<Rightarrow> Inl NotExist
           | Some dir \<Rightarrow> (case dir (snd path) of None \<Rightarrow> Inl NotExist | Some data \<Rightarrow> Inr data)))"

definition os_RemoveAll :: "env \<Rightarrow> disk \<Rightarrow> string \<Rightarrow> error option \<times> disk" where
  "os_RemoveAll e d p =
     (case remove_err e p of
        Some err \<Rightarrow> (Some err, d)
      | None \<Rightarrow> (None, d(p := None)))"

text \<open>
  The path of chunk \<open>i\<close> of an object:
  \<open>filepath.Join(modelPath, fmt.Sprintf("chunk_%d", i))\<close>.
\<close>

definition chunkPath :: "string \<Rightarrow> nat \<Rightarrow> string \<times> nat" where
  "chunkPath modelPath i = (modelPath, i)"

subsection \<open>The input stream\<close>

text \<open>
  An \<open>io.Reader\<close> is the data it is going to deliver, in the segments in which the
  data becomes available to it; a segment may carry an error (\<open>io.EOF\<close> or a
  failure), which the reader reports together with the last bytes of that segment.
  \<open>Read\<close> into a buffer of \<open>n\<close> bytes hands out at most \<open>n\<close> bytes of the first
  segment and keeps the rest of it; after the last segment every \<open>Read\<close> returns
  \<open>(0, io.EOF)\<close>. The result is the bytes read, the error, and the reader that is left.
\<close>

type_synonym reader = "(bytes \<times> error option) list"

fun reader_Read :: "nat \<Rightarrow> reader \<Rightarrow> (bytes \<times> error option) \<times> reader" where
  "reader_Read n [] = (([], Some EOF), [])"
| "reader_Read n ((data, err) # rest) =
     (if length data \<le> n then ((data, err), rest)
      else ((take n data, None), (drop n data, err) # rest))"

text \<open>
  \<open>strings.NewReader\<close> and \<open>bytes.NewReader\<close>, the readers of the repository's tests:
  the whole content is available at once, and the end is reported by a read of its
  own, after the last byte.
\<close>

definition strings_NewReader :: "bytes \<Rightarrow> reader" where
  "strings_NewReader content = (if content = [] then [] else [(content, None)])"

text \<open>The bytes a reader delivers up to its first error, those reported with it included.\<close>

fun reader_stream :: "reader \<Rightarrow> bytes" where
  "reader_stream [] = []"
| "reader_stream ((data, err) # rest) =
     (case err of None \<Rightarrow> data @ reader_stream rest | Some _ \<Rightarrow> data)"

definition reader_size :: "reader \<Rightarrow> nat" where
  "reader_size rd = sum_list (map (\<lambda>seg. Suc (length (fst seg))) rd)"

subsection \<open>Storing\<close>

definition storeChunk :: "env \<Rightarrow> disk \<Rightarrow> ModelChunk \<Rightarrow> string \<times> nat \<Rightarrow> error option \<times> disk" where
  "storeChunk e d chunk path = os_WriteChunk e d path (Chunk_Data chunk)"

text \<open>Every read that returns no error makes the reader smaller.\<close>

lemma reader_Read_size:
  assumes "reader_Read ChunkSize rd = ((data, None), rd')"
  shows "reader_size rd' < reader_size rd"
proof (cases rd)
  case Nil
  with assms show ?thesis by simp
next
  case (Cons seg rest)
  obtain sd se where seg: "seg = (sd, se)" by (cases seg)
  show ?thesis
  proof (cases "length sd \<le> ChunkSize")
    case True
    with assms Cons seg show ?thesis by (auto simp: reader_size_def)
  next
    case False
    with assms Cons seg show ?thesis by (auto simp: reader_size_def ChunkSize_def)
  qed
qed

text \<open>
  The loop of \<open>splitAndStoreChunks\<close>, from the state at the head of an iteration:
  the reader, the chunk identifiers and the size so far, the index of the next chunk
  and the disk. It returns the result, the disk and the reader it leaves. The
  \<open>k\<close>-th chunk identifier is the \<open>(k+1)\<close>-th UUID of the operation, the first one
  being the object's. Every iteration polls the context once and every iteration
  that continues stores one chunk, so the poll of an iteration has the number of its
  chunk. \<open>totalSize\<close> is added up in \<open>int64\<close>; \<open>chunkIndex\<close>, a Go \<open>int\<close> that
  counts files written, is a natural number.
\<close>

function splitLoop ::
  "env \<Rightarrow> string \<Rightarrow> reader \<Rightarrow> string list \<Rightarrow> int64 \<Rightarrow> nat \<Rightarrow> disk
     \<Rightarrow> (error + string list \<times> int64) \<times> disk \<times> reader" where
  "splitLoop e modelPath rd chunks totalSize chunkIndex d =
     (if ctx_done e chunkIndex then (Inl Cancelled, d, rd)
      else
        (case reader_Read ChunkSize rd of
           ((data, err), rd') \<Rightarrow>
             (case err of
                Some er \<Rightarrow>
                  (if er \<noteq> EOF then (Inl er, d, rd')
                   else (Inr (chunks, totalSize), d, rd'))
              | None \<Rightarrow>
                  (case storeChunk e d
                          \<lparr>Chunk_ID = uuid e (Suc chunkIndex), Chunk_Data = data,
                           Chunk_Index = chunkIndex, Chunk_ModelID = [], Chunk_Hash = []\<rparr>
                          (chunkPath modelPath chunkIndex) of
                     (Some er, d') \<Rightarrow> (Inl er, d', rd')
                   | (None, d') \<Rightarrow>
                       splitLoop e modelPath rd' (chunks @ [uuid e (Suc chunkIndex)])
                         (totalSize + of_nat (length data)) (Suc chunkIndex) d'))))"
  by pat_completeness auto
termination
proof (relation "measure (\<lambda>(e, modelPath, rd, chunks, totalSize, chunkIndex, d). reader_size rd)")
  show "wf (measure (\<lambda>(e, modelPath, rd, chunks, totalSize, chunkIndex, d). reader_size rd))"
    by simp
next
  fix e :: env and modelPath :: string and rd rd' :: reader and chunks :: "string list"
    and totalSize :: int64 and chunkIndex :: nat and d d' :: disk
    and x :: "bytes \<times> error option" and data :: bytes and err :: "error option"
  assume "(x, rd') = reader_Read ChunkSize rd" and "(data, err) = x" and "err = None"
  then have "reader_Read ChunkSize rd = ((data, None), rd')"
    by simp
  then have "reader_size rd' < reader_size rd"
    by (rule reader_Read_size)
  then show "((e, modelPath, rd', chunks @ [uuid e (Suc chunkIndex)],
               totalSize + of_nat (length data), Suc chunkIndex, d'),
              (e, modelPath, rd, chunks, totalSize, chunkIndex, d))
             \<in> measure (\<lambda>(e, modelPath, rd, chunks, totalSize, chunkIndex, d). reader_size rd)"
    by simp
qed

definition splitAndStoreChunks ::
  "env \<Rightarrow> disk \<Rightarrow> string \<Rightarrow> reader \<Rightarrow> (error + string list \<times> int64) \<times> disk \<times> reader" where
  "splitAndStoreChunks e d modelPath rd = splitLoop e modelPath rd [] 0 0 d"

text \<open>
  \<open>StoreModel\<close> returns the catalog entry or the error, and the storage, the disk
  and the reader it leaves. The error of the cleaning \<open>os.RemoveAll\<close> is dropped.
\<close>

definition StoreModel ::
  "(bytes \<Rightarrow> bytes) \<Rightarrow> env \<Rightarrow> Storage \<Rightarrow> disk \<Rightarrow> string \<Rightarrow> string \<Rightarrow> reader
     \<Rightarrow> (error + ModelMetadata) \<times> Storage \<times> disk \<times> reader" where
  "StoreModel sha256 e s d name format rd =
     (let m0 = \<lparr>ID = uuid e 0, Name = name, Format = format, Size = 0, Hash = [],
                Chunks = [], CreatedAt = now e, Owner = [], Permissions = []\<rparr>;
          modelPath = filepath_Join (basePath s) (ID m0)
      in case os_MkdirAll e d modelPath of
           (Some err, d1) \<Rightarrow> (Inl err, s, d1, rd)
         | (None, d1) \<Rightarrow>
             (case splitAndStoreChunks e d1 modelPath rd of
                (Inl err, d2, rd') \<Rightarrow> (Inl err, s, snd (os_RemoveAll e d2 modelPath), rd')
              | (Inr (chunks, sz), d2, rd') \<Rightarrow>
                  (let m1 = m0\<lparr>Chunks := chunks, Size := sz\<rparr>;
                       m2 = m1\<lparr>Hash := CalculateHash sha256 m1\<rparr>
                   in (Inr m2, s\<lparr>metadata := (metadata s)(ID m2 \<mapsto> m2)\<rparr>, d2, rd'))))"

subsection \<open>Looking up, deleting and streaming\<close>

definition getMetadata :: "Storage \<Rightarrow> string \<Rightarrow> error + ModelMetadata" where
  "getMetadata s modelID =
     (case metadata s modelID of
        None \<Rightarrow> Inl (ModelNotFound modelID)
      | Some m \<Rightarrow> Inr m)"

definition GetModel :: "Storage \<Rightarrow> string \<Rightarrow> error + ModelMetadata" where
  "GetModel s modelID =
     (case getMetadata s modelID of
        Inl err \<Rightarrow> Inl err
      | Inr m \<Rightarrow> Inr m)"

definition DeleteModel :: "env \<Rightarrow> Storage \<Rightarrow> disk \<Rightarrow> string \<Rightarrow> error option \<times> Storage \<times> disk" where
  "DeleteModel e s d modelID =
     (case metadata s modelID of
        None \<Rightarrow> (Some (ModelNotFound modelID), s, d)
      | Some _ \<Rightarrow>
          (let s' = s\<lparr>metadata := (metadata s)(modelID := None)\<rparr>;
               modelPath = filepath_Join (basePath s) modelID
           in case os_RemoveAll e d modelPath of (err, d') \<Rightarrow> (err, s', d')))"

text \<open>
  An \<open>io.Writer\<close>: the bytes written so far, with \<open>w k = Some (n, err)\<close> when the
  \<open>k\<close>-th \<open>Write\<close> fails with \<open>err\<close> after \<open>n\<close> bytes.
\<close>

type_synonym writer = "nat \<Rightarrow> (nat \<times> error) option"

definition writer_Write :: "writer \<Rightarrow> nat \<Rightarrow> bytes \<Rightarrow> bytes \<Rightarrow> error option \<times> bytes" where
  "writer_Write w k out data =
     (case w k of
        None \<Rightarrow> (None, out @ data)
      | Some (n, err) \<Rightarrow> (Some err, out @ take n data))"

text \<open>
  The loop of \<open>StreamModel\<close> from index \<open>i\<close>, over \<open>n\<close> chunks: it returns the error
  (\<open>None\<close> is \<open>nil\<close>) and everything written to the writer.
\<close>

function streamLoop ::
  "env \<Rightarrow> writer \<Rightarrow> disk \<Rightarrow> string \<Rightarrow> nat \<Rightarrow> nat \<Rightarrow> bytes \<Rightarrow> error option \<times> bytes" where
  "streamLoop e w d modelPath n i out =
     (if i < n then
        (if ctx_done e i then (Some Cancelled, out)
         else
           (case os_ReadChunk e d (chunkPath modelPath i) of
              Inl err \<Rightarrow> (Some (ChunkReadFailed i err), out)
            | Inr data \<Rightarrow>
                (case writer_Write w i out data of
                   (Some err, out') \<Rightarrow> (Some (ChunkWriteFailed i err), out')
                 | (None, out') \<Rightarrow> streamLoop e w d modelPath n (Suc i) out')))
      else (None, out))"
  by pat_completeness auto
termination
  by (relation "measure (\<lambda>(e, w, d, modelPath, n, i, out). n - i)") auto

definition StreamModel ::
  "env \<Rightarrow> writer \<Rightarrow> Storage \<Rightarrow> disk \<Rightarrow> string \<Rightarrow> error option \<times> bytes" where
  "StreamModel e w s d modelID =
     (case getMetadata s modelID of
        Inl err \<Rightarrow> (Some err, [])
      | Inr m \<Rightarrow>
          streamLoop e w d (filepath_Join (basePath s) modelID) (length (Chunks m)) 0 [])"

declare splitLoop.simps [simp del]
declare streamLoop.simps [simp del]


text \<open>A directory after files \<open>i\<close>, \<open>i+1\<close>, ... have been written with the given contents.\<close>

fun put_chunks :: "(nat \<rightharpoonup> bytes) \<Rightarrow> nat \<Rightarrow> bytes list \<Rightarrow> (nat \<rightharpoonup> bytes)" where
  "put_chunks dir i [] = dir"
| "put_chunks dir i (x # xs) = put_chunks (dir(i \<mapsto> x)) (Suc i) xs"

text \<open>
  The successive results of \<open>Read\<close> into a buffer of \<open>n\<close> bytes from one segment that
  carries no error, and from a whole reader of such segments with the buffer of
  \<open>splitAndStoreChunks\<close>.
\<close>

function buffer_reads :: "nat \<Rightarrow> bytes \<Rightarrow> bytes list" where
  "buffer_reads n data =
     (if n = 0 \<or> length data \<le> n then [data]
      else take n data # buffer_reads n (drop n data))"
  by pat_completeness auto
termination
  by (relation "measure (\<lambda>(n, data). length data)") auto

declare buffer_reads.simps [simp del]

definition reads_of :: "reader \<Rightarrow> bytes list" where
  "reads_of rd = concat (map (\<lambda>seg. buffer_reads ChunkSize (fst seg)) rd)"

text \<open>The length of chunk file \<open>k\<close> of a directory, and the sum over the first \<open>n\<close> files.\<close>

definition payload_length :: "disk \<Rightarrow> string \<Rightarrow> nat \<Rightarrow> nat" where
  "payload_length d p k =
     (case d p of None \<Rightarrow> 0 | Some dir \<Rightarrow> (case dir k of None \<Rightarrow> 0 | Some b \<Rightarrow> length b))"

definition stored_size :: "disk \<Rightarrow> string \<Rightarrow> nat \<Rightarrow> nat" where
  "stored_size d p n = sum_list (map (payload_length d p) [0..<n])"

section \<open>Overlay network (pkg/p2p/network.go)\<close>

record Config =
  NodeID :: string
  ListenAddress :: string
  Port :: int
  StoragePath :: string
  MaxSize :: int64
  BootstrapPeers :: "string list"
  APIPort :: int

record AddrInfo =
  AddrInfo_ID :: string
  AddrInfo_Addrs :: "string list"

text \<open>The network, as far as the connection and receive loops use it: \<open>host_ID\<close> is \<open>n.host.ID()\<close>.\<close>

record Network =
  cfg :: Config
  host_ID :: string
  peers :: "string \<rightharpoonup> AddrInfo"

definition Second :: int64 where
  "Second = 1000000000"

definition Minute :: int64 where
  "Minute = 60 * Second"

text \<open>
  What the overlay receives from outside, by the number \<open>t\<close> of loop iterations begun
  so far: whether \<open>ctx.Done()\<close> is ready when iteration \<open>t\<close> polls it, and the error
  of \<open>host.Connect\<close> to a peer in iteration \<open>t\<close>, if any; and the two parsers of the
  libp2p libraries.
\<close>

record netenv =
  net_ctx_done :: "nat \<Rightarrow> bool"
  host_Connect :: "AddrInfo \<Rightarrow> nat \<Rightarrow> error option"
  NewMultiaddr :: "string \<Rightarrow> error + string"
  AddrInfoFromP2pAddr :: "string \<Rightarrow> error + AddrInfo"

definition connectToPeer :: "netenv \<Rightarrow> Network \<Rightarrow> nat \<Rightarrow> AddrInfo \<Rightarrow> error option \<times> Network" where
  "connectToPeer ne n t peerInfo =
     (case host_Connect ne peerInfo t of
        Some err \<Rightarrow> (Some err, n)
      | None \<Rightarrow> (None, n\<lparr>peers := (peers n)(AddrInfo_ID peerInfo \<mapsto> peerInfo)\<rparr>))"

text \<open>
  The loop of \<open>connectToPeerWithBackoff\<close>, from the head of an iteration: the
  network, the iteration count, the current \<open>backoff\<close> and the durations handed to
  \<open>time.Sleep\<close> so far (ghost state). It returns the error (\<open>None\<close> is \<open>nil\<close>), the
  network, the iteration count and the sleeps; not returning is the value \<open>None\<close>.
  The comparison and the doubling are those of \<open>int64\<close>.
\<close>

partial_function (option) backoffLoop ::
  "netenv \<Rightarrow> AddrInfo \<Rightarrow> int64 \<Rightarrow> Network \<Rightarrow> nat \<Rightarrow> int64 \<Rightarrow> int64 list
     \<Rightarrow> (error option \<times> Network \<times> nat \<times> int64 list) option" where
  "backoffLoop ne peerInfo maxBackoff n t backoff sleeps =
     (if net_ctx_done ne t then Some (Some Cancelled, n, Suc t, sleeps)
      else
        (case connectToPeer ne n t peerInfo of
           (None, n') \<Rightarrow> Some (None, n', Suc t, sleeps)
         | (Some err, n') \<Rightarrow>
             (if maxBackoff <s backoff then Some (Some (MaxBackoffReached err), n', Suc t, sleeps)
              else backoffLoop ne peerInfo maxBackoff n' (Suc t) (backoff * 2) (sleeps @ [backoff]))))"

definition connectToPeerWithBackoff ::
  "netenv \<Rightarrow> Network \<Rightarrow> nat \<Rightarrow> AddrInfo \<Rightarrow> (error option \<times> Network \<times> nat \<times> int64 list) option" where
  "connectToPeerWithBackoff ne n t peerInfo = backoffLoop ne peerInfo Minute n t Second []"

text \<open>
  The loop of \<open>connectToBootstrapPeers\<close> over the configured addresses. The log
  (ghost state) records, for every peer handed to \<open>connectToPeerWithBackoff\<close>, the
  error it returned and its sleeps. Every branch of the loop body continues.
\<close>

fun bootstrapLoop ::
  "netenv \<Rightarrow> string list \<Rightarrow> Network \<Rightarrow> nat \<Rightarrow> (AddrInfo \<times> error option \<times> int64 list) list
     \<Rightarrow> (Network \<times> nat \<times> (AddrInfo \<times> error option \<times> int64 list) list) option" where
  "bootstrapLoop ne [] n t log = Some (n, t, log)"
| "bootstrapLoop ne (addr # addrs) n t log =
     (case NewMultiaddr ne addr of
        Inl _ \<Rightarrow> bootstrapLoop ne addrs n t log
      | Inr maddr \<Rightarrow>
          (case AddrInfoFromP2pAddr ne maddr of
             Inl _ \<Rightarrow> bootstrapLoop ne addrs n t log
           | Inr peerInfo \<Rightarrow>
               (case connectToPeerWithBackoff ne n t peerInfo of
                  None \<Rightarrow> None
                | Some (err, n', t', sleeps) \<Rightarrow>
                    bootstrapLoop ne addrs n' t' (log @ [(peerInfo, err, sleeps)]))))"

definition connectToBootstrapPeers ::
  "netenv \<Rightarrow> Network \<Rightarrow> nat
     \<Rightarrow> (error option \<times> Network \<times> nat \<times> (AddrInfo \<times> error option \<times> int64 list) list) option" where
  "connectToBootstrapPeers ne n t =
     (case bootstrapLoop ne (BootstrapPeers (cfg n)) n t [] of
        None \<Rightarrow> None
      | Some (n', t', log) \<Rightarrow> Some (None, n', t', log))"

text \<open>The peers of the configuration whose address parses, in the order of the list.\<close>

fun parsed_peers :: "netenv \<Rightarrow> string list \<Rightarrow> AddrInfo list" where
  "parsed_peers ne [] = []"
| "parsed_peers ne (addr # addrs) =
     (case NewMultiaddr ne addr of
        Inl _ \<Rightarrow> parsed_peers ne addrs
      | Inr maddr \<Rightarrow>
          (case AddrInfoFromP2pAddr ne maddr of
             Inl _ \<Rightarrow> parsed_peers ne addrs
           | Inr peerInfo \<Rightarrow> peerInfo # parsed_peers ne addrs))"

subsection \<open>The receive loop\<close>

text \<open>
  A message of the subscription, with the two fields of \<open>pubsub.Message\<close> the core
  can see: the peer it was received from, which is the sender the loop compares with
  the node's own identity, and the payload.
\<close>

record pubsub_Message =
  ReceivedFrom :: string
  Message_Data :: bytes

text \<open>
  What \<open>subscription.Next\<close> returns to the loop, call after call: a message, or an
  error together with whether \<open>ctx.Err()\<close> is non-nil when the loop then tests it.
\<close>

datatype next_result = Delivered pubsub_Message | NextError bool

text \<open>
  \<open>handleMessages\<close> over the results of the successive calls of \<open>Next\<close>: the
  messages for which a \<open>processMessage\<close> has been started, in order. When the list is
  used up the loop is waiting in \<open>Next\<close>.
\<close>

fun handleMessages :: "Network \<Rightarrow> next_result list \<Rightarrow> pubsub_Message list \<Rightarrow> pubsub_Message list" where
  "handleMessages n [] started = started"
| "handleMessages n (NextError cancelled # rest) started =
     (if cancelled then started else handleMessages n rest started)"
| "handleMessages n (Delivered msg # rest) started =
     (if ReceivedFrom msg = host_ID n then handleMessages n rest started
      else handleMessages n rest (started @ [msg]))"

text \<open>The messages \<open>Next\<close> hands to the loop before the loop returns.\<close>

fun received :: "next_result list \<Rightarrow> pubsub_Message list" where
  "received [] = []"
| "received (NextError cancelled # rest) = (if cancelled then [] else received rest)"
| "received (Delivered msg # rest) = msg # received rest"

section \<open>Example inputs\<close>

text \<open>
  An environment in which nothing fails and nothing is cancelled, with \<open>m\<close> as the
  object identifier and \<open>c\<close> as every chunk identifier; a catalog entry; a network.
\<close>

definition quiet_env :: env where
  "quiet_env = \<lparr>uuid = (\<lambda>k. if k = 0 then ''m'' else ''c''), now = 0, ctx_done = (\<lambda>_. False),
     mkdir_err = (\<lambda>_. None), write_err = (\<lambda>_ _. None), read_err = (\<lambda>_ _. None),
     remove_err = (\<lambda>_. None)\<rparr>"

definition quiet_blockos :: blockos where
  "quiet_blockos = \<lparr>stat_fails = (\<lambda>_. False), bwrite_err = (\<lambda>_. None), bread_err = (\<lambda>_. None),
     bremove_err = (\<lambda>_. None)\<rparr>"

definition example_entry :: ModelMetadata where
  "example_entry = \<lparr>ID = ''m'', Name = ''n'', Format = ''f'', Size = 2, Hash = ''6d6e66'',
     Chunks = [''c'', ''c''], CreatedAt = 0, Owner = [], Permissions = []\<rparr>"

definition example_net :: Network where
  "example_net = \<lparr>cfg = \<lparr>NodeID = [], ListenAddress = ''0.0.0.0'', Port = 4001,
       StoragePath = ''./storage'', MaxSize = 107374182400,
       BootstrapPeers = [''a1'', ''bad'', ''a2''], APIPort = 8080\<rparr>,
     host_ID = ''self'', peers = Map.empty\<rparr>"



definition cancelling_env :: env where
  "cancelling_env = quiet_env\<lparr>ctx_done := (\<lambda>k. 1 \<le> k)\<rparr>"

text \<open>
  An overlay environment in which the peer \<open>a1\<close> is unreachable and the address
  \<open>bad\<close> does not parse.
\<close>

definition example_netenv :: netenv where
  "example_netenv = \<lparr>net_ctx_done = (\<lambda>_. False),
     host_Connect = (\<lambda>p k. if AddrInfo_ID p = ''a1'' then Some (IOFailure ''unreachable'') else None),
     NewMultiaddr = (\<lambda>a. if a = ''bad'' then Inl (IOFailure ''invalid multiaddr'') else Inr a),
     AddrInfoFromP2pAddr = (\<lambda>m. Inr \<lparr>AddrInfo_ID = m, AddrInfo_Addrs = [m]\<rparr>)\<rparr>"

section \<open>Properties of the block store\<close>

lemma sint_of_length:
  assumes "n < 2 ^ 63"
  shows "sint (of_nat n :: int64) = int n"
proof -
  have "int n < 2 ^ 63"
    using assms by (metis of_nat_less_iff of_nat_numeral of_nat_power)
  then have "signed_take_bit 63 (int n) = int n"
    by (intro signed_take_bit_int_eq_self) auto
  then show ?thesis
    by (simp add: signed_of_nat)
qed

text \<open>
  Claim C10. Whenever a file is stored under the path of \<open>h\<close> and the read is not
  refused, \<open>GetBlock h\<close> returns the block whose \<open>Hash\<close> is \<open>h\<close>, whose \<open>Data\<close> is
  the content of the file and whose \<open>Size\<close> is the length of that content (as an
  \<open>int64\<close>, which reads back as the length for every length below \<open>2^63\<close>). Nothing
  relates the content to \<open>h\<close>: \<open>GetBlock\<close> computes no digest, and bytes that do not
  digest to \<open>h\<close> are returned as the block for \<open>h\<close>.
\<close>

theorem GetBlock_unverified:
  assumes "files fs (getBlockPath s h) = Some data"
    and "bread_err sys (getBlockPath s h) = None"
  shows "GetBlock sys s fs h =
           Inr \<lparr>Block_Hash = h, Block_Size = of_nat (length data), Block_Data = data\<rparr>
         \<and> (length data < 2 ^ 63 \<longrightarrow> sint (of_nat (length data) :: int64) = int (length data))"
  using assms by (simp add: GetBlock_def os_ReadFile_def sint_of_length)

text \<open>
  The file \<open>b/00\<close> holds the bytes 1, 2, 3, whose digest (with the identity in place
  of SHA-256) is not \<open>00\<close>; \<open>GetBlock\<close> returns them as the block \<open>00\<close>.
\<close>

theorem GetBlock_unverified_witness:
  "calculateHash (\<lambda>d. d) [1, 2, 3] \<noteq> ''00''
   \<and> GetBlock quiet_blockos \<lparr>Store_basePath = ''b''\<rparr>
        \<lparr>files = [''b/00'' \<mapsto> [1, 2, 3]], writes = 1\<rparr> ''00''
      = Inr \<lparr>Block_Hash = ''00'', Block_Size = 3, Block_Data = [1, 2, 3]\<rparr>
   \<and> sint (3 :: int64) = 3"
  using GetBlock_unverified [of "\<lparr>files = [''b/00'' \<mapsto> [1, 2, 3]], writes = 1\<rparr>"
      "\<lparr>Store_basePath = ''b''\<rparr>" "''00''" "[1, 2, 3]" quiet_blockos]
  by (simp add: getBlockPath_def filepath_Join_def calculateHash_def hex_encode_def
      hex_digit_def quiet_blockos_def)

text \<open>The empty directory is digest-addressed, and both operations keep it so.\<close>

lemma digest_addressed_empty: "digest_addressed sha s \<lparr>files = Map.empty, writes = w\<rparr>"
  by (simp add: digest_addressed_def)

lemma StoreBlock_digest_addressed:
  assumes "digest_addressed sha s fs"
  shows "digest_addressed sha s (snd (StoreBlock sha sys s fs P))"
  using assms
  by (auto simp: digest_addressed_def StoreBlock_def os_WriteFile_def Let_def
      split: option.splits if_splits)

lemma DeleteBlock_digest_addressed:
  assumes "digest_addressed sha s fs"
  shows "digest_addressed sha s (snd (DeleteBlock sys s fs h))"
  using assms
  by (auto simp: digest_addressed_def DeleteBlock_def os_Remove_def split: option.splits if_splits)

text \<open>
  Claim C3. When \<open>StoreBlock P\<close> has returned an identifier, it is the digest of
  \<open>P\<close>, and a second \<open>StoreBlock P\<close> returns the same identifier and leaves the
  directory as it is, write count included: it writes nothing (\<open>os.Stat\<close> is taken to
  succeed on the file that is there). In a digest-addressed directory in which no
  other content shares the digest of \<open>P\<close>, exactly one file holds \<open>P\<close> after the first
  call and after the second, the one under its digest.
\<close>

theorem StoreBlock_idempotent:
  "(StoreBlock sha sys s fs P = (Inr h, fs1)
      \<and> \<not> stat_fails sys (getBlockPath s (calculateHash sha P)) \<longrightarrow>
      h = calculateHash sha P
      \<and> StoreBlock sha sys s fs1 P = (Inr h, fs1)
      \<and> writes fs1 \<le> Suc (writes fs))
   \<and> (StoreBlock sha sys s fs P = (Inr h, fs1)
      \<and> digest_addressed sha s fs
      \<and> (\<forall>c. files fs (getBlockPath s (calculateHash sha P)) = Some c \<longrightarrow> c = P) \<longrightarrow>
      {p. files fs1 p = Some P} = {getBlockPath s h}
      \<and> {p. files (snd (StoreBlock sha sys s fs1 P)) p = Some P} = {getBlockPath s h})"
proof (intro conjI impI)
  assume h: "StoreBlock sha sys s fs P = (Inr h, fs1)
      \<and> \<not> stat_fails sys (getBlockPath s (calculateHash sha P))"
  then show "h = calculateHash sha P"
    by (auto simp: StoreBlock_def Let_def split: if_splits prod.splits option.splits)
  from h have there: "files fs1 (getBlockPath s (calculateHash sha P)) \<noteq> None"
    by (auto simp: StoreBlock_def Let_def os_Stat_def os_WriteFile_def
        split: if_splits prod.splits option.splits)
  with h show "StoreBlock sha sys s fs1 P = (Inr h, fs1)"
    by (auto simp: StoreBlock_def Let_def os_Stat_def split: if_splits prod.splits option.splits)
  from h show "writes fs1 \<le> Suc (writes fs)"
    by (auto simp: StoreBlock_def Let_def os_WriteFile_def split: if_splits prod.splits option.splits)
next
  assume h: "StoreBlock sha sys s fs P = (Inr h, fs1)
      \<and> digest_addressed sha s fs
      \<and> (\<forall>c. files fs (getBlockPath s (calculateHash sha P)) = Some c \<longrightarrow> c = P)"
  then have hd: "h = calculateHash sha P"
    by (auto simp: StoreBlock_def Let_def split: if_splits prod.splits option.splits)
  from h have at: "files fs1 (getBlockPath s h) = Some P"
    by (auto simp: StoreBlock_def Let_def os_Stat_def os_WriteFile_def
        split: if_splits prod.splits option.splits)
  from h have da: "digest_addressed sha s fs1"
    using StoreBlock_digest_addressed [of sha s fs sys P] by simp
  then have only: "files fs1 p = Some P \<Longrightarrow> p = getBlockPath s h" for p
    by (simp add: digest_addressed_def hd)
  show one: "{p. files fs1 p = Some P} = {getBlockPath s h}"
  proof (rule set_eqI)
    fix p
    show "p \<in> {p. files fs1 p = Some P} \<longleftrightarrow> p \<in> {getBlockPath s h}"
      using at only [of p] by auto
  qed
  have again: "files (snd (StoreBlock sha sys s fs1 P)) = files fs1"
  proof (cases "os_Stat sys fs1 (getBlockPath s h) = None")
    case True
    then show ?thesis by (simp add: StoreBlock_def Let_def hd)
  next
    case False
    have "(files fs1)(getBlockPath s h \<mapsto> P) = files fs1"
      using at by (simp add: map_upd_triv)
    with False show ?thesis
      by (simp add: StoreBlock_def Let_def hd [symmetric] os_WriteFile_def split: option.splits)
  qed
  show "{p. files (snd (StoreBlock sha sys s fs1 P)) p = Some P} = {getBlockPath s h}"
    using one by (simp add: again)
qed

text \<open>
  A directory that already holds the block of the byte 10: the first call writes the
  block 1, 2, 3, the second writes nothing, and one file holds it.
\<close>

theorem StoreBlock_idempotent_witness:
  "StoreBlock (\<lambda>d. d) quiet_blockos \<lparr>Store_basePath = ''b''\<rparr>
       \<lparr>files = [''b/0a'' \<mapsto> [10]], writes = 1\<rparr> [1, 2, 3]
     = (Inr ''010203'', \<lparr>files = [''b/0a'' \<mapsto> [10], ''b/010203'' \<mapsto> [1, 2, 3]], writes = 2\<rparr>)
   \<and> StoreBlock (\<lambda>d. d) quiet_blockos \<lparr>Store_basePath = ''b''\<rparr>
       \<lparr>files = [''b/0a'' \<mapsto> [10], ''b/010203'' \<mapsto> [1, 2, 3]], writes = 2\<rparr> [1, 2, 3]
     = (Inr ''010203'', \<lparr>files = [''b/0a'' \<mapsto> [10], ''b/010203'' \<mapsto> [1, 2, 3]], writes = 2\<rparr>)
   \<and> digest_addressed (\<lambda>d. d) \<lparr>Store_basePath = ''b''\<rparr> \<lparr>files = [''b/0a'' \<mapsto> [10]], writes = 1\<rparr>
   \<and> {p. files \<lparr>files = [''b/0a'' \<mapsto> [10], ''b/010203'' \<mapsto> [1, 2, 3 :: byte]], writes = 2\<rparr> p
            = Some [1, 2, 3]}
     = {''b/010203''}"
proof -
  have da: "digest_addressed (\<lambda>d. d) \<lparr>Store_basePath = ''b''\<rparr> \<lparr>files = [''b/0a'' \<mapsto> [10]], writes = 1\<rparr>"
    by (auto simp: digest_addressed_def getBlockPath_def filepath_Join_def calculateHash_def
        hex_encode_def hex_digit_def split: if_splits)
  show ?thesis
    using da StoreBlock_idempotent [where sha = "\<lambda>d. d" and sys = quiet_blockos
      and s = "\<lparr>Store_basePath = ''b''\<rparr>" and fs = "\<lparr>files = [''b/0a'' \<mapsto> [10]], writes = 1\<rparr>"
      and P = "[1, 2, 3]" and h = "''010203''"
      and ?fs1.0 = "\<lparr>files = [''b/0a'' \<mapsto> [10], ''b/010203'' \<mapsto> [1, 2, 3]], writes = 2\<rparr>"]
    by (simp add: StoreBlock_def os_Stat_def os_WriteFile_def quiet_blockos_def getBlockPath_def
      filepath_Join_def calculateHash_def hex_encode_def hex_digit_def Let_def)
qed

section \<open>Properties of the chunked object storage\<close>

text \<open>The definitions that evaluate the storage operations on a concrete input.\<close>

lemmas eval_defs = StoreModel_def splitAndStoreChunks_def splitLoop.simps os_MkdirAll_def
  os_WriteChunk_def os_RemoveAll_def os_ReadChunk_def storeChunk_def chunkPath_def
  filepath_Join_def ChunkSize_def CalculateHash_def hex_encode_def hex_digit_def
  bytes_of_string_def quiet_env_def StreamModel_def streamLoop.simps getMetadata_def
  writer_Write_def Let_def



text \<open>
  A run of either loop over iterations in which nothing fails and nothing is
  cancelled: the loop continues from the state after them.
\<close>

lemma splitLoop_prefix:
  assumes "\<forall>x\<in>set ps. length x \<le> ChunkSize"
    and "\<forall>j<length ps. \<not> ctx_done e (i + j) \<and> write_err e p (i + j) = None"
    and "d p = Some dir"
  shows "splitLoop e p (map (\<lambda>x. (x, None)) ps @ rest) chunks tot i d
         = splitLoop e p rest (chunks @ map (\<lambda>j. uuid e (Suc j)) [i..<i + length ps])
             (tot + of_nat (length (concat ps))) (i + length ps) (d(p \<mapsto> put_chunks dir i ps))"
  using assms
proof (induction ps arbitrary: chunks tot i d dir)
  case Nil
  then show ?case by (simp add: map_upd_triv)
next
  case (Cons x xs)
  from Cons.prems(2) have here: "\<not> ctx_done e i" "write_err e p i = None"
    by force+
  from Cons.prems(2) have later: "\<forall>j<length xs. \<not> ctx_done e (Suc i + j) \<and> write_err e p (Suc i + j) = None"
    by fastforce
  from Cons.prems(1) have small: "length x \<le> ChunkSize" "\<forall>y\<in>set xs. length y \<le> ChunkSize"
    by simp_all
  have step: "splitLoop e p (map (\<lambda>x. (x, None)) (x # xs) @ rest) chunks tot i d
      = splitLoop e p (map (\<lambda>x. (x, None)) xs @ rest) (chunks @ [uuid e (Suc i)])
          (tot + of_nat (length x)) (Suc i) (d(p \<mapsto> dir(i \<mapsto> x)))"
    using here small(1) Cons.prems(3)
    by (subst splitLoop.simps) (simp add: storeChunk_def os_WriteChunk_def chunkPath_def)
  have dp: "(d(p \<mapsto> dir(i \<mapsto> x))) p = Some (dir(i \<mapsto> x))"
    by simp
  have ih: "splitLoop e p (map (\<lambda>x. (x, None)) xs @ rest) (chunks @ [uuid e (Suc i)])
          (tot + of_nat (length x)) (Suc i) (d(p \<mapsto> dir(i \<mapsto> x)))
      = splitLoop e p rest ((chunks @ [uuid e (Suc i)]) @ map (\<lambda>j. uuid e (Suc j)) [Suc i..<Suc i + length xs])
          ((tot + of_nat (length x)) + of_nat (length (concat xs))) (Suc i + length xs)
          ((d(p \<mapsto> dir(i \<mapsto> x)))(p \<mapsto> put_chunks (dir(i \<mapsto> x)) (Suc i) xs))"
    by (rule Cons.IH [where i = "Suc i" and d = "d(p \<mapsto> dir(i \<mapsto> x))" and dir = "dir(i \<mapsto> x)",
          OF small(2) later dp])
  have a: "chunks @ map (\<lambda>j. uuid e (Suc j)) [i..<Suc i + length xs]
      = (chunks @ [uuid e (Suc i)]) @ map (\<lambda>j. uuid e (Suc j)) [Suc i..<Suc i + length xs]"
    by (simp del: upt_Suc add: upt_conv_Cons)
  have b: "tot + of_nat (length (concat (x # xs)))
      = (tot + of_nat (length x)) + of_nat (length (concat xs))"
    by simp
  have c: "i + length (x # xs) = Suc i + length xs"
    by simp
  have dd: "d(p \<mapsto> put_chunks dir i (x # xs))
      = (d(p \<mapsto> dir(i \<mapsto> x)))(p \<mapsto> put_chunks (dir(i \<mapsto> x)) (Suc i) xs)"
    by simp
  show ?case
    unfolding c a b dd using step ih by (rule trans)
qed

lemma streamLoop_prefix:
  assumes "i \<le> k" and "k \<le> n"
    and "\<forall>j. i \<le> j \<and> j < k \<longrightarrow>
           \<not> ctx_done e j \<and> os_ReadChunk e d (chunkPath p j) = Inr (data j) \<and> w j = None"
  shows "streamLoop e w d p n i out = streamLoop e w d p n k (out @ concat (map data [i..<k]))"
  using assms
proof (induction "k - i" arbitrary: i out)
  case 0
  then show ?case by simp
next
  case (Suc x)
  then have lt: "i < k" "i < n" by simp_all
  with Suc.prems(3) have here: "\<not> ctx_done e i" "os_ReadChunk e d (chunkPath p i) = Inr (data i)" "w i = None"
    by simp_all
  have step: "streamLoop e w d p n i out = streamLoop e w d p n (Suc i) (out @ data i)"
    using lt here by (subst streamLoop.simps) (simp add: writer_Write_def)
  have "streamLoop e w d p n (Suc i) (out @ data i)
      = streamLoop e w d p n k ((out @ data i) @ concat (map data [Suc i..<k]))"
    using Suc.hyps Suc.prems lt by (intro Suc.hyps(1)) auto
  with step lt show ?case
    by (simp del: upt_Suc add: upt_conv_Cons)
qed

subsection \<open>Reads, chunks and the round trip\<close>

lemma concat_buffer_reads: "concat (buffer_reads n data) = data"
proof (induction n data rule: buffer_reads.induct)
  case (1 n data)
  show ?case
  proof (cases "n = 0 \<or> length data \<le> n")
    case True
    then show ?thesis by (subst buffer_reads.simps) simp
  next
    case False
    with 1 show ?thesis by (subst buffer_reads.simps) simp
  qed
qed

lemma buffer_reads_small: "\<forall>x\<in>set (buffer_reads n data). length x \<le> n \<or> n = 0"
proof (induction n data rule: buffer_reads.induct)
  case (1 n data)
  show ?case
  proof (cases "n = 0 \<or> length data \<le> n")
    case True
    then show ?thesis by (subst buffer_reads.simps) auto
  next
    case False
    with 1 show ?thesis by (subst buffer_reads.simps) auto
  qed
qed

lemma length_buffer_reads:
  assumes "0 < n" and "data \<noteq> []"
  shows "length (buffer_reads n data) = (length data + n - 1) div n"
  using assms
proof (induction n data rule: buffer_reads.induct)
  case (1 n data)
  show ?case
  proof (cases "length data \<le> n")
    case True
    with "1.prems" have "(length data + n - 1) div n = 1"
      by (cases data) (simp_all add: div_nat_eqI)
    with True show ?thesis by (subst buffer_reads.simps) simp
  next
    case False
    then have long: "n < length data" by simp
    then have ne: "drop n data \<noteq> []" by simp
    have ih: "length (buffer_reads n (drop n data)) = (length (drop n data) + n - 1) div n"
      using "1.IH" [OF _ "1.prems"(1) ne] False "1.prems"(1) by simp
    have "(length data + n - 1) div n = Suc ((length data - n + n - 1) div n)"
    proof -
      have "length data + n - 1 = (length data - n + n - 1) + n"
        using long "1.prems"(1) by simp
      then show ?thesis
        using "1.prems"(1) by (metis Suc_eq_plus1 div_add_self2 less_numeral_extra(3))
    qed
    with ih False "1.prems"(1) show ?thesis
      by (subst buffer_reads.simps) simp
  qed
qed


lemma splitLoop_segment:
  assumes "\<forall>j. \<not> ctx_done e j" and "\<forall>j. write_err e p j = None" and "d p = Some dir"
  shows "splitLoop e p ((data, None) # rest) chunks tot i d
         = splitLoop e p rest
             (chunks @ map (\<lambda>j. uuid e (Suc j)) [i..<i + length (buffer_reads ChunkSize data)])
             (tot + of_nat (length data)) (i + length (buffer_reads ChunkSize data))
             (d(p \<mapsto> put_chunks dir i (buffer_reads ChunkSize data)))"
  using assms(3)
proof (induction ChunkSize data arbitrary: chunks tot i d dir rule: buffer_reads.induct)
  case (1 data)
  have pos: "0 < ChunkSize" by (simp add: ChunkSize_def)
  show ?case
  proof (cases "length data \<le> ChunkSize")
    case True
    then have br: "buffer_reads ChunkSize data = [data]"
      by (subst buffer_reads.simps) simp
    show ?thesis
      unfolding br using True assms(1,2) "1.prems"
      by (subst splitLoop.simps) (simp add: storeChunk_def os_WriteChunk_def chunkPath_def)
  next
    case False
    then have br: "buffer_reads ChunkSize data
        = take ChunkSize data # buffer_reads ChunkSize (drop ChunkSize data)"
      using pos by (subst buffer_reads.simps) simp
    have len: "length (take ChunkSize data) = ChunkSize"
      using False by simp
    let ?x = "take ChunkSize data"
    let ?r = "drop ChunkSize data"
    have step: "splitLoop e p ((data, None) # rest) chunks tot i d
        = splitLoop e p ((?r, None) # rest) (chunks @ [uuid e (Suc i)])
            (tot + of_nat (length ?x)) (Suc i) (d(p \<mapsto> dir(i \<mapsto> ?x)))"
      using False assms(1,2) "1.prems"
      by (subst splitLoop.simps) (simp add: storeChunk_def os_WriteChunk_def chunkPath_def)
    have dp: "(d(p \<mapsto> dir(i \<mapsto> ?x))) p = Some (dir(i \<mapsto> ?x))"
      by simp
    have ih: "splitLoop e p ((?r, None) # rest) (chunks @ [uuid e (Suc i)])
            (tot + of_nat (length ?x)) (Suc i) (d(p \<mapsto> dir(i \<mapsto> ?x)))
        = splitLoop e p rest
            ((chunks @ [uuid e (Suc i)]) @ map (\<lambda>j. uuid e (Suc j)) [Suc i..<Suc i + length (buffer_reads ChunkSize ?r)])
            ((tot + of_nat (length ?x)) + of_nat (length ?r)) (Suc i + length (buffer_reads ChunkSize ?r))
            ((d(p \<mapsto> dir(i \<mapsto> ?x)))(p \<mapsto> put_chunks (dir(i \<mapsto> ?x)) (Suc i) (buffer_reads ChunkSize ?r)))"
      using False pos
      by (intro "1.hyps" [where i = "Suc i" and d = "d(p \<mapsto> dir(i \<mapsto> ?x))" and dir = "dir(i \<mapsto> ?x)"] dp) simp
    have a: "chunks @ map (\<lambda>j. uuid e (Suc j)) [i..<Suc i + length (buffer_reads ChunkSize ?r)]
        = (chunks @ [uuid e (Suc i)]) @ map (\<lambda>j. uuid e (Suc j)) [Suc i..<Suc i + length (buffer_reads ChunkSize ?r)]"
      by (simp del: upt_Suc add: upt_conv_Cons)
    have b: "tot + of_nat (length data) = (tot + of_nat (length ?x)) + of_nat (length ?r)"
    proof -
      have "length data = length ?x + length ?r"
        by (metis append_take_drop_id length_append)
      then show ?thesis
        by (metis (no_types) add.assoc of_nat_add)
    qed
    have c: "i + length (?x # buffer_reads ChunkSize ?r) = Suc i + length (buffer_reads ChunkSize ?r)"
      by simp
    have dd: "d(p \<mapsto> put_chunks dir i (?x # buffer_reads ChunkSize ?r))
        = (d(p \<mapsto> dir(i \<mapsto> ?x)))(p \<mapsto> put_chunks (dir(i \<mapsto> ?x)) (Suc i) (buffer_reads ChunkSize ?r))"
      by simp
    show ?thesis
      unfolding br c a b dd using step ih by (rule trans)
  qed
qed

lemma put_chunks_append:
  "put_chunks dir i (xs @ ys) = put_chunks (put_chunks dir i xs) (i + length xs) ys"
  by (induction xs arbitrary: dir i) simp_all

lemma put_chunks_below: "k < i \<Longrightarrow> put_chunks dir i xs k = dir k"
  by (induction xs arbitrary: dir i) simp_all

lemma put_chunks_nth: "j < length xs \<Longrightarrow> put_chunks dir i xs (i + j) = Some (xs ! j)"
proof (induction xs arbitrary: dir i j)
  case Nil
  then show ?case by simp
next
  case (Cons x xs)
  show ?case
  proof (cases j)
    case 0
    then show ?thesis by (simp add: put_chunks_below)
  next
    case (Suc j')
    with Cons.prems have "j' < length xs" by simp
    then have "put_chunks (dir(i \<mapsto> x)) (Suc i) xs (Suc i + j') = Some (xs ! j')"
      by (rule Cons.IH)
    with Suc show ?thesis by simp
  qed
qed

lemma splitLoop_clean:
  assumes "\<forall>j. \<not> ctx_done e j" and "\<forall>j. write_err e p j = None"
    and "\<forall>seg\<in>set rd. snd seg = None" and "d p = Some dir"
  shows "splitLoop e p rd chunks tot i d
         = (Inr (chunks @ map (\<lambda>j. uuid e (Suc j)) [i..<i + length (reads_of rd)],
                 tot + of_nat (length (concat (map fst rd)))),
            d(p \<mapsto> put_chunks dir i (reads_of rd)), [])"
  using assms(3,4)
proof (induction rd arbitrary: chunks tot i d dir)
  case Nil
  have "d(p \<mapsto> dir) = d"
    using Nil.prems(2) by (simp add: map_upd_triv)
  then show ?case
    using assms(1) by (subst splitLoop.simps) (simp add: reads_of_def)
next
  case (Cons seg rd)
  obtain data where seg: "seg = (data, None)"
    using Cons.prems(1) by (cases seg) simp
  let ?rs = "buffer_reads ChunkSize data"
  have clean: "\<forall>seg\<in>set rd. snd seg = None"
    using Cons.prems(1) by simp
  have first: "splitLoop e p (seg # rd) chunks tot i d
      = splitLoop e p rd (chunks @ map (\<lambda>j. uuid e (Suc j)) [i..<i + length ?rs])
          (tot + of_nat (length data)) (i + length ?rs) (d(p \<mapsto> put_chunks dir i ?rs))"
    unfolding seg
    by (rule splitLoop_segment [where e = e and p = p and d = d and dir = dir,
          OF assms(1,2) Cons.prems(2)])
  have dp: "(d(p \<mapsto> put_chunks dir i ?rs)) p = Some (put_chunks dir i ?rs)"
    by simp
  have rest: "splitLoop e p rd (chunks @ map (\<lambda>j. uuid e (Suc j)) [i..<i + length ?rs])
          (tot + of_nat (length data)) (i + length ?rs) (d(p \<mapsto> put_chunks dir i ?rs))
      = (Inr ((chunks @ map (\<lambda>j. uuid e (Suc j)) [i..<i + length ?rs])
                @ map (\<lambda>j. uuid e (Suc j)) [i + length ?rs..<i + length ?rs + length (reads_of rd)],
              (tot + of_nat (length data)) + of_nat (length (concat (map fst rd)))),
         (d(p \<mapsto> put_chunks dir i ?rs))(p \<mapsto> put_chunks (put_chunks dir i ?rs) (i + length ?rs) (reads_of rd)),
         [])"
    by (rule Cons.IH [where d = "d(p \<mapsto> put_chunks dir i ?rs)" and dir = "put_chunks dir i ?rs",
          OF clean dp])
  have ro: "reads_of (seg # rd) = ?rs @ reads_of rd"
    by (simp add: reads_of_def seg)
  have upt: "[i..<i + length (?rs @ reads_of rd)]
      = [i..<i + length ?rs] @ [i + length ?rs..<i + length ?rs + length (reads_of rd)]"
    using upt_add_eq_append [of i "i + length ?rs" "length (reads_of rd)"]
    by (simp add: add.assoc)
  have a: "chunks @ map (\<lambda>j. uuid e (Suc j)) [i..<i + length (?rs @ reads_of rd)]
      = (chunks @ map (\<lambda>j. uuid e (Suc j)) [i..<i + length ?rs])
        @ map (\<lambda>j. uuid e (Suc j)) [i + length ?rs..<i + length ?rs + length (reads_of rd)]"
    by (simp only: upt map_append append_assoc)
  have b: "tot + of_nat (length (concat (map fst (seg # rd))))
      = (tot + of_nat (length data)) + of_nat (length (concat (map fst rd)))"
    by (simp add: seg)
  have c: "d(p \<mapsto> put_chunks dir i (?rs @ reads_of rd))
      = (d(p \<mapsto> put_chunks dir i ?rs))(p \<mapsto> put_chunks (put_chunks dir i ?rs) (i + length ?rs) (reads_of rd))"
    by (simp only: put_chunks_append fun_upd_upd)
  show ?case
    unfolding ro a b c using first rest by (rule trans)
qed

lemma reader_stream_clean:
  "\<forall>seg\<in>set rd. snd seg = None \<Longrightarrow> reader_stream rd = concat (map fst rd)"
  by (induction rd) auto

lemma concat_reads_of: "concat (reads_of rd) = concat (map fst rd)"
  by (induction rd) (simp_all add: reads_of_def concat_buffer_reads)


lemma buffer_reads_nth:
  assumes "0 < n" and "k < length (buffer_reads n data)"
  shows "buffer_reads n data ! k = take n (drop (k * n) data)"
  using assms
proof (induction n data arbitrary: k rule: buffer_reads.induct)
  case (1 n data)
  show ?case
  proof (cases "length data \<le> n")
    case True
    then have br: "buffer_reads n data = [data]"
      by (subst buffer_reads.simps) simp
    with "1.prems" True show ?thesis by simp
  next
    case False
    then have br: "buffer_reads n data = take n data # buffer_reads n (drop n data)"
      using "1.prems"(1) by (subst buffer_reads.simps) simp
    show ?thesis
    proof (cases k)
      case 0
      then show ?thesis by (simp add: br)
    next
      case (Suc k')
      with "1.prems"(2) br have "k' < length (buffer_reads n (drop n data))" by simp
      then have "buffer_reads n (drop n data) ! k' = take n (drop (k' * n) (drop n data))"
        using "1.IH" False "1.prems"(1) by simp
      then show ?thesis
        by (simp add: br Suc add.commute)
    qed
  qed
qed

lemma streamLoop_done: "streamLoop e w d p n n out = (None, out)"
  by (subst streamLoop.simps) simp

lemma StoreModel_clean_reader:
  assumes "\<forall>seg\<in>set rd. snd seg = None"
    and "\<forall>j. \<not> ctx_done e j"
    and "mkdir_err e (filepath_Join (basePath s) (uuid e 0)) = None"
    and "\<forall>j. write_err e (filepath_Join (basePath s) (uuid e 0)) j = None"
  shows "\<exists>m dir. StoreModel sha e s d name format rd
            = (Inr m, s\<lparr>metadata := (metadata s)(uuid e 0 \<mapsto> m)\<rparr>,
               d(filepath_Join (basePath s) (uuid e 0) \<mapsto> put_chunks dir 0 (reads_of rd)), [])
          \<and> ID m = uuid e 0
          \<and> length (Chunks m) = length (reads_of rd)
          \<and> Size m = of_nat (length (concat (map fst rd)))"
proof -
  let ?P = "filepath_Join (basePath s) (uuid e 0)"
  obtain dir where mk: "os_MkdirAll e d ?P = (None, d(?P \<mapsto> dir))"
  proof (cases "d ?P")
    case None
    then have "os_MkdirAll e d ?P = (None, d(?P \<mapsto> Map.empty))"
      using assms(3) by (simp add: os_MkdirAll_def)
    then show ?thesis by (rule that)
  next
    case (Some dir)
    then have "d(?P \<mapsto> dir) = d"
      by (simp add: map_upd_triv)
    with Some have "os_MkdirAll e d ?P = (None, d(?P \<mapsto> dir))"
      using assms(3) by (simp add: os_MkdirAll_def)
    then show ?thesis by (rule that)
  qed
  have dp: "(d(?P \<mapsto> dir)) ?P = Some dir"
    by simp
  have loop: "splitLoop e ?P rd [] 0 0 (d(?P \<mapsto> dir))
      = (Inr ([] @ map (\<lambda>j. uuid e (Suc j)) [0..<0 + length (reads_of rd)],
              0 + of_nat (length (concat (map fst rd)))),
         (d(?P \<mapsto> dir))(?P \<mapsto> put_chunks dir 0 (reads_of rd)), [])"
    by (rule splitLoop_clean [where d = "d(?P \<mapsto> dir)" and dir = dir,
          OF assms(2) assms(4) assms(1) dp])
  show ?thesis
    using mk loop
    by (intro exI [where x = dir] exI [where x = "\<lparr>ID = uuid e 0, Name = name, Format = format,
          Size = of_nat (length (concat (map fst rd))),
          Hash = hex_encode (sha (bytes_of_string (uuid e 0 @ name @ format))),
          Chunks = map (\<lambda>j. uuid e (Suc j)) [0..<length (reads_of rd)],
          CreatedAt = now e, Owner = [], Permissions = []\<rparr>"])
      (simp add: StoreModel_def splitAndStoreChunks_def Let_def CalculateHash_def)
qed

lemma StreamModel_stored_chunks:
  assumes "metadata s modelID = Some m"
    and "d (filepath_Join (basePath s) modelID) = Some (put_chunks dir 0 ps)"
    and "length (Chunks m) = length ps"
    and "\<forall>j. \<not> ctx_done e j"
    and "\<forall>j. read_err e (filepath_Join (basePath s) modelID) j = None"
    and "\<forall>j. w j = None"
  shows "StreamModel e w s d modelID = (None, concat ps)"
proof -
  let ?p = "filepath_Join (basePath s) modelID"
  have rd: "os_ReadChunk e d (chunkPath ?p j) = Inr (ps ! j)" if "j < length ps" for j
    using put_chunks_nth [OF that, of dir 0] assms(2,5)
    by (simp add: os_ReadChunk_def chunkPath_def)
  have "streamLoop e w d ?p (length ps) 0 []
      = streamLoop e w d ?p (length ps) (length ps) ([] @ concat (map (\<lambda>j. ps ! j) [0..<length ps]))"
    using assms(4,6) rd by (intro streamLoop_prefix) auto
  also have "\<dots> = (None, [] @ concat (map (\<lambda>j. ps ! j) [0..<length ps]))"
    by (rule streamLoop_done)
  also have "map (\<lambda>j. ps ! j) [0..<length ps] = ps"
    by (rule map_nth)
  finally show ?thesis
    using assms(1,3) by (simp add: StreamModel_def getMetadata_def)
qed

text \<open>
  Round trip. A reader that delivers its bytes without an error and reports the end
  by a read of its own is stored and streamed back byte for byte, whatever the sizes
  of its reads (none, less than a chunk, several chunks), when nothing is refused or
  cancelled.
\<close>

lemma StoreModel_StreamModel_roundtrip:
  assumes "\<forall>seg\<in>set rd. snd seg = None"
    and "\<forall>j. \<not> ctx_done e j"
    and "mkdir_err e (filepath_Join (basePath s) (uuid e 0)) = None"
    and "\<forall>j. write_err e (filepath_Join (basePath s) (uuid e 0)) j = None"
    and "\<forall>j. \<not> ctx_done e' j"
    and "\<forall>j. read_err e' (filepath_Join (basePath s) (uuid e 0)) j = None"
    and "\<forall>j. w j = None"
  shows "\<exists>m s' d'. StoreModel sha e s d name format rd = (Inr m, s', d', [])
          \<and> StreamModel e' w s' d' (ID m) = (None, reader_stream rd)"
proof -
  let ?P = "filepath_Join (basePath s) (uuid e 0)"
  obtain m dir where st: "StoreModel sha e s d name format rd
            = (Inr m, s\<lparr>metadata := (metadata s)(uuid e 0 \<mapsto> m)\<rparr>,
               d(?P \<mapsto> put_chunks dir 0 (reads_of rd)), [])"
    and idm: "ID m = uuid e 0" and len: "length (Chunks m) = length (reads_of rd)"
    using StoreModel_clean_reader [OF assms(1-4), of sha d name format] by blast
  let ?s = "s\<lparr>metadata := (metadata s)(uuid e 0 \<mapsto> m)\<rparr>"
  let ?d = "d(?P \<mapsto> put_chunks dir 0 (reads_of rd))"
  have "StreamModel e' w ?s ?d (uuid e 0) = (None, concat (reads_of rd))"
    using len assms(5-7)
    by (intro StreamModel_stored_chunks [where m = m and dir = dir]) simp_all
  then have "StreamModel e' w ?s ?d (ID m) = (None, reader_stream rd)"
    by (simp add: idm concat_reads_of reader_stream_clean [OF assms(1)])
  with st show ?thesis by blast
qed

text \<open>
  Claim C1, on a reader that returns its last bytes together with \<open>io.EOF\<close>, as
  \<open>io.Reader\<close> allows: the reader delivers the bytes 1, 2, 3, \<open>StoreModel\<close> succeeds
  with size 0 and no chunk, and \<open>StreamModel\<close> on the returned identifier writes
  nothing. The loop tests for \<open>io.EOF\<close> before it uses the bytes of that read.
\<close>

theorem StoreModel_drops_bytes_read_with_EOF:
  "reader_stream [([1, 2, 3], Some EOF)] = [1, 2, 3]
   \<and> StoreModel (\<lambda>d. d) quiet_env \<lparr>basePath = ''b'', metadata = Map.empty\<rparr> Map.empty ''n'' ''f''
       [([1, 2, 3], Some EOF)]
     = (Inr \<lparr>ID = ''m'', Name = ''n'', Format = ''f'', Size = 0, Hash = ''6d6e66'',
              Chunks = [], CreatedAt = 0, Owner = [], Permissions = []\<rparr>,
        \<lparr>basePath = ''b'', metadata = [''m'' \<mapsto>
            \<lparr>ID = ''m'', Name = ''n'', Format = ''f'', Size = 0, Hash = ''6d6e66'',
              Chunks = [], CreatedAt = 0, Owner = [], Permissions = []\<rparr>]\<rparr>,
        [''b/m'' \<mapsto> Map.empty], [])
   \<and> StreamModel quiet_env (\<lambda>_. None)
        \<lparr>basePath = ''b'', metadata = [''m'' \<mapsto>
            \<lparr>ID = ''m'', Name = ''n'', Format = ''f'', Size = 0, Hash = ''6d6e66'',
              Chunks = [], CreatedAt = 0, Owner = [], Permissions = []\<rparr>]\<rparr>
        [''b/m'' \<mapsto> Map.empty] ''m''
     = (None, [])"
  by (simp add: eval_defs)

text \<open>
  Catalog consistency. The size of a stored entry is the sum of the lengths of its
  chunk files, for every reader. For a reader that fills the buffer until its content
  ends (\<open>strings.NewReader\<close>), the number of chunks is the size divided by the chunk
  size, rounded up, and chunk \<open>k\<close> holds the bytes from \<open>k * ChunkSize\<close> on: every
  chunk is full except possibly the last. Twelve MiB give three chunks of 5, 5 and
  2 MiB.
\<close>

lemma storeChunk_stored_size:
  assumes "storeChunk e d c (p, i) = (None, d')"
  shows "stored_size d' p (Suc i) = stored_size d p i + length (Chunk_Data c)"
proof -
  obtain dir where dir: "d p = Some dir" and d': "d' = d(p \<mapsto> dir(i \<mapsto> Chunk_Data c))"
    using assms by (auto simp: storeChunk_def os_WriteChunk_def split: option.splits)
  have below: "payload_length d' p k = payload_length d p k" if "k < i" for k
    using that by (simp add: payload_length_def d' dir)
  have same: "map (payload_length d' p) [0..<i] = map (payload_length d p) [0..<i]"
    by (rule map_cong) (simp_all add: below)
  have new: "payload_length d' p i = length (Chunk_Data c)"
    by (simp add: payload_length_def d')
  show ?thesis
    by (simp add: stored_size_def same new)
qed

lemma splitLoop_size:
  assumes "splitLoop e p rd chunks tot i d = (Inr (chunks', tot'), d', rd')"
    and "length chunks = i"
    and "tot = of_nat (stored_size d p i)"
  shows "tot' = of_nat (stored_size d' p (length chunks'))"
  using assms
proof (induction e p rd chunks tot i d rule: splitLoop.induct)
  case (1 e p rd chunks tot i d)
  obtain data err rd1 where rd: "reader_Read ChunkSize rd = ((data, err), rd1)"
    by (metis prod.exhaust)
  show ?case
  proof (cases "ctx_done e i")
    case True
    with "1.prems" show ?thesis by (simp add: splitLoop.simps)
  next
    case nd: False
    show ?thesis
    proof (cases err)
      case (Some er)
      with "1.prems" nd rd show ?thesis
        by (auto simp: splitLoop.simps split: if_splits)
    next
      case None
      let ?c = "\<lparr>Chunk_ID = uuid e (Suc i), Chunk_Data = data, Chunk_Index = i,
           Chunk_ModelID = [], Chunk_Hash = []\<rparr>"
      obtain werr d1 where st: "storeChunk e d ?c (chunkPath p i) = (werr, d1)"
        by (metis prod.exhaust)
      show ?thesis
      proof (cases werr)
        case (Some er)
        with "1.prems" nd rd None st show ?thesis
          by (simp add: splitLoop.simps)
      next
        case wn: None
        from st wn have st': "storeChunk e d ?c (p, i) = (None, d1)"
          by (simp add: chunkPath_def)
        have rec: "splitLoop e p rd1 (chunks @ [uuid e (Suc i)]) (tot + of_nat (length data)) (Suc i) d1
            = (Inr (chunks', tot'), d', rd')"
          using "1.prems"(1) nd rd None st wn by (simp add: splitLoop.simps)
        have len: "length (chunks @ [uuid e (Suc i)]) = Suc i"
          using "1.prems"(2) by simp
        have inv: "tot + of_nat (length data) = of_nat (stored_size d1 p (Suc i))"
          using storeChunk_stored_size [OF st'] "1.prems"(3) by simp
        show ?thesis
          by (rule "1.IH" [OF nd rd [symmetric] refl None st [symmetric] wn rec len inv])
      qed
    qed
  qed
qed

lemma StoreModel_size_is_stored_size:
  assumes "StoreModel sha e s d name format rd = (Inr m, s', d', rd')"
  shows "Size m = of_nat (stored_size d' (filepath_Join (basePath s) (uuid e 0)) (length (Chunks m)))"
proof -
  from assms obtain dm where
    loop: "splitLoop e (filepath_Join (basePath s) (uuid e 0)) rd [] 0 0 dm = (Inr (Chunks m, Size m), d', rd')"
    by (auto simp: StoreModel_def splitAndStoreChunks_def Let_def
        split: prod.splits option.splits sum.splits)
  show ?thesis
    by (rule splitLoop_size [OF loop]) (simp_all add: stored_size_def)
qed

lemma StoreModel_size_as_integer:
  assumes "StoreModel sha e s d name format rd = (Inr m, s', d', rd')"
    and "stored_size d' (filepath_Join (basePath s) (uuid e 0)) (length (Chunks m)) < 2 ^ 63"
  shows "sint (Size m)
         = int (stored_size d' (filepath_Join (basePath s) (uuid e 0)) (length (Chunks m)))"
  using StoreModel_size_is_stored_size [OF assms(1)] sint_of_length [OF assms(2)] by simp

lemma StoreModel_strings_reader:
  assumes "\<forall>j. \<not> ctx_done e j"
    and "mkdir_err e (filepath_Join (basePath s) (uuid e 0)) = None"
    and "\<forall>j. write_err e (filepath_Join (basePath s) (uuid e 0)) j = None"
  shows "\<exists>m s' d' dir. StoreModel sha e s d name format (strings_NewReader content)
            = (Inr m, s', d', [])
          \<and> length (Chunks m) = (length content + ChunkSize - 1) div ChunkSize
          \<and> Size m = of_nat (length content)
          \<and> d' (filepath_Join (basePath s) (uuid e 0)) = Some dir
          \<and> (\<forall>k<length (Chunks m). dir k = Some (take ChunkSize (drop (k * ChunkSize) content)))"
proof -
  let ?P = "filepath_Join (basePath s) (uuid e 0)"
  let ?rd = "strings_NewReader content"
  have pos: "0 < ChunkSize" by (simp add: ChunkSize_def)
  have clean: "\<forall>seg\<in>set ?rd. snd seg = None"
    by (simp add: strings_NewReader_def)
  obtain m dir where st: "StoreModel sha e s d name format ?rd
            = (Inr m, s\<lparr>metadata := (metadata s)(uuid e 0 \<mapsto> m)\<rparr>,
               d(?P \<mapsto> put_chunks dir 0 (reads_of ?rd)), [])"
    and len: "length (Chunks m) = length (reads_of ?rd)"
    and sz: "Size m = of_nat (length (concat (map fst ?rd)))"
    using StoreModel_clean_reader [OF clean assms, of sha d name format] by blast
  have count: "length (reads_of ?rd) = (length content + ChunkSize - 1) div ChunkSize"
  proof (cases "content = []")
    case True
    then show ?thesis using pos by (simp add: strings_NewReader_def reads_of_def)
  next
    case False
    then show ?thesis
      using length_buffer_reads [OF pos False] by (simp add: strings_NewReader_def reads_of_def)
  qed
  have nth: "put_chunks dir 0 (reads_of ?rd) k = Some (take ChunkSize (drop (k * ChunkSize) content))"
    if "k < length (reads_of ?rd)" for k
  proof -
    from that have ne: "content \<noteq> []"
      by (auto simp: strings_NewReader_def reads_of_def)
    then have ro: "reads_of ?rd = buffer_reads ChunkSize content"
      by (simp add: strings_NewReader_def reads_of_def)
    show ?thesis
      using put_chunks_nth [OF that, of dir 0] buffer_reads_nth [OF pos, of k content] that
      by (simp add: ro)
  qed
  have "Size m = of_nat (length content)"
    using sz by (simp add: strings_NewReader_def)
  with st len count nth show ?thesis
    by (intro exI [where x = m] exI [where x = "s\<lparr>metadata := (metadata s)(uuid e 0 \<mapsto> m)\<rparr>"]
        exI [where x = "d(?P \<mapsto> put_chunks dir 0 (reads_of ?rd))"]
        exI [where x = "put_chunks dir 0 (reads_of ?rd)"]) simp
qed

lemma StoreModel_twelve_MiB:
  assumes "length content = 12 * 1024 * 1024"
    and "\<forall>j. \<not> ctx_done e j"
    and "mkdir_err e (filepath_Join (basePath s) (uuid e 0)) = None"
    and "\<forall>j. write_err e (filepath_Join (basePath s) (uuid e 0)) j = None"
  shows "\<exists>m s' d' dir c0 c1 c2. StoreModel sha e s d name format (strings_NewReader content)
            = (Inr m, s', d', [])
          \<and> length (Chunks m) = 3
          \<and> d' (filepath_Join (basePath s) (uuid e 0)) = Some dir
          \<and> dir 0 = Some c0 \<and> dir 1 = Some c1 \<and> dir 2 = Some c2
          \<and> length c0 = 5 * 1024 * 1024 \<and> length c1 = 5 * 1024 * 1024 \<and> length c2 = 2 * 1024 * 1024
          \<and> c0 @ c1 @ c2 = content"
proof -
  obtain m s' d' dir where st: "StoreModel sha e s d name format (strings_NewReader content)
            = (Inr m, s', d', [])"
    and len: "length (Chunks m) = (length content + ChunkSize - 1) div ChunkSize"
    and dir: "d' (filepath_Join (basePath s) (uuid e 0)) = Some dir"
    and nth: "\<forall>k<length (Chunks m). dir k = Some (take ChunkSize (drop (k * ChunkSize) content))"
    using StoreModel_strings_reader [OF assms(2-4), of sha d name format content] by blast
  have three: "length (Chunks m) = 3"
    using len assms(1) by (simp add: ChunkSize_def)
  let ?c0 = "take ChunkSize content"
  let ?c1 = "take ChunkSize (drop ChunkSize content)"
  let ?c2 = "take ChunkSize (drop (2 * ChunkSize) content)"
  have d0: "dir 0 = Some ?c0" using nth three by simp
  have d1: "dir 1 = Some ?c1" using nth [rule_format, of 1] three by simp
  have d2: "dir 2 = Some ?c2" using nth [rule_format, of 2] three by simp
  have l0: "length ?c0 = 5 * 1024 * 1024" using assms(1) by (simp add: ChunkSize_def)
  have l1: "length ?c1 = 5 * 1024 * 1024" using assms(1) by (simp add: ChunkSize_def)
  have l2: "length ?c2 = 2 * 1024 * 1024" using assms(1) by (simp add: ChunkSize_def)
  have "drop (3 * ChunkSize) content = []"
    using assms(1) by (simp add: ChunkSize_def)
  then have "?c2 = drop (2 * ChunkSize) content"
    using assms(1) by (simp add: ChunkSize_def)
  then have cat: "?c0 @ ?c1 @ ?c2 = content"
    by (metis append_take_drop_id drop_drop mult_2 )
  from st three dir d0 d1 d2 l0 l1 l2 cat show ?thesis by blast
qed

text \<open>
  Claim C2, on a reader that delivers two bytes in two reads of one byte, as
  \<open>io.Reader\<close> allows: every read becomes a chunk of its own, so the entry lists two
  chunks for a size of 2, where the size divided by the chunk size, rounded up, is 1.
\<close>

theorem StoreModel_short_reads_chunk_count:
  "reader_stream [([1], None), ([2], None)] = [1, 2]
   \<and> StoreModel (\<lambda>d. d) quiet_env \<lparr>basePath = ''b'', metadata = Map.empty\<rparr> Map.empty ''n'' ''f''
       [([1], None), ([2], None)]
     = (Inr example_entry, \<lparr>basePath = ''b'', metadata = [''m'' \<mapsto> example_entry]\<rparr>,
        [''b/m'' \<mapsto> [0 \<mapsto> [1], 1 \<mapsto> [2]]], [])
   \<and> length (Chunks example_entry) = 2
   \<and> sint (Size example_entry) = 2
   \<and> (2 + ChunkSize - 1) div ChunkSize = 1"
  by (simp add: eval_defs example_entry_def)

text \<open>
  Claim C9. The \<open>Hash\<close> of a stored entry is \<open>CalculateHash\<close> of the entry, the
  digest of identifier, name and format: entries that agree on the three have the
  same hash, and two models stored under the same identifier, name and format get the
  same hash whatever their readers deliver.
\<close>

theorem metadata_hash_from_id_name_format:
  "(ID m1 = ID m2 \<and> Name m1 = Name m2 \<and> Format m1 = Format m2 \<longrightarrow>
      CalculateHash sha m1 = CalculateHash sha m2)
   \<and> (StoreModel sha e1 s1 d1 name format rd1 = (Inr a, r1)
      \<and> StoreModel sha e2 s2 d2 name format rd2 = (Inr b, r2)
      \<and> uuid e1 0 = uuid e2 0 \<longrightarrow>
      Hash a = Hash b
      \<and> Hash a = hex_encode (sha (bytes_of_string (uuid e1 0 @ name @ format)))
      \<and> Hash a = CalculateHash sha a)"
  by (auto simp: StoreModel_def CalculateHash_def Let_def
      split: prod.splits option.splits sum.splits)

text \<open>Two stores of different content under the same identifier, name and format.\<close>

theorem metadata_hash_from_id_name_format_witness:
  "StoreModel (\<lambda>d. d) quiet_env \<lparr>basePath = ''b'', metadata = Map.empty\<rparr> Map.empty ''n'' ''f''
       [([1], None)]
     = (Inr \<lparr>ID = ''m'', Name = ''n'', Format = ''f'', Size = 1, Hash = ''6d6e66'',
              Chunks = [''c''], CreatedAt = 0, Owner = [], Permissions = []\<rparr>,
        \<lparr>basePath = ''b'', metadata = [''m'' \<mapsto>
            \<lparr>ID = ''m'', Name = ''n'', Format = ''f'', Size = 1, Hash = ''6d6e66'',
              Chunks = [''c''], CreatedAt = 0, Owner = [], Permissions = []\<rparr>]\<rparr>,
        [''b/m'' \<mapsto> [0 \<mapsto> [1]]], [])
   \<and> StoreModel (\<lambda>d. d) quiet_env \<lparr>basePath = ''b'', metadata = Map.empty\<rparr> Map.empty ''n'' ''f''
       [([7, 8], None), ([9], None)]
     = (Inr \<lparr>ID = ''m'', Name = ''n'', Format = ''f'', Size = 3, Hash = ''6d6e66'',
              Chunks = [''c'', ''c''], CreatedAt = 0, Owner = [], Permissions = []\<rparr>,
        \<lparr>basePath = ''b'', metadata = [''m'' \<mapsto>
            \<lparr>ID = ''m'', Name = ''n'', Format = ''f'', Size = 3, Hash = ''6d6e66'',
              Chunks = [''c'', ''c''], CreatedAt = 0, Owner = [], Permissions = []\<rparr>]\<rparr>,
        [''b/m'' \<mapsto> [0 \<mapsto> [7, 8], 1 \<mapsto> [9]]], [])"
  using metadata_hash_from_id_name_format [where sha = "\<lambda>d. d" and ?e1.0 = quiet_env
      and ?e2.0 = quiet_env and ?s1.0 = "\<lparr>basePath = ''b'', metadata = Map.empty\<rparr>"
      and ?s2.0 = "\<lparr>basePath = ''b'', metadata = Map.empty\<rparr>" and ?d1.0 = Map.empty
      and ?d2.0 = Map.empty and name = "''n''" and format = "''f''"
      and ?rd1.0 = "[([1], None)]" and ?rd2.0 = "[([7, 8], None), ([9], None)]"
      and a = "\<lparr>ID = ''m'', Name = ''n'', Format = ''f'', Size = 1, Hash = ''6d6e66'',
              Chunks = [''c''], CreatedAt = 0, Owner = [], Permissions = []\<rparr>"
      and b = "\<lparr>ID = ''m'', Name = ''n'', Format = ''f'', Size = 3, Hash = ''6d6e66'',
              Chunks = [''c'', ''c''], CreatedAt = 0, Owner = [], Permissions = []\<rparr>"
      and ?r1.0 = "(\<lparr>basePath = ''b'', metadata = [''m'' \<mapsto>
            \<lparr>ID = ''m'', Name = ''n'', Format = ''f'', Size = 1, Hash = ''6d6e66'',
              Chunks = [''c''], CreatedAt = 0, Owner = [], Permissions = []\<rparr>]\<rparr>,
        [''b/m'' \<mapsto> [0 \<mapsto> [1]]], [])"
      and ?r2.0 = "(\<lparr>basePath = ''b'', metadata = [''m'' \<mapsto>
            \<lparr>ID = ''m'', Name = ''n'', Format = ''f'', Size = 3, Hash = ''6d6e66'',
              Chunks = [''c'', ''c''], CreatedAt = 0, Owner = [], Permissions = []\<rparr>]\<rparr>,
        [''b/m'' \<mapsto> [0 \<mapsto> [7, 8], 1 \<mapsto> [9]]], [])"
      and ?m1.0 = example_entry and ?m2.0 = example_entry]
  by (simp add: eval_defs)




text \<open>
  Claim C8. Both loops poll the context at the head of every iteration, before the
  read of the next chunk. When \<open>StoreModel\<close> has stored the chunks \<open>ps\<close> and the
  context is done at the next poll, it returns the cancellation error, leaves the
  catalog as it was and reads nothing more: the rest of the reader is untouched.
  When \<open>StreamModel\<close> has written \<open>k\<close> chunks and the context is done at the next
  poll, it returns the cancellation error and exactly those \<open>k\<close> chunks have been
  written. The same holds from the head of any iteration of either loop.
\<close>

theorem cancellation_stops_before_next_chunk:
  "((\<forall>x\<in>set ps. length x \<le> ChunkSize)
      \<and> (\<forall>j<length ps. \<not> ctx_done e j \<and> write_err e (filepath_Join (basePath s) (uuid e 0)) j = None)
      \<and> mkdir_err e (filepath_Join (basePath s) (uuid e 0)) = None
      \<and> ctx_done e (length ps) \<longrightarrow>
      (\<exists>d'. StoreModel sha e s d name format (map (\<lambda>x. (x, None)) ps @ rest)
              = (Inl Cancelled, s, d', rest)))
   \<and> (ctx_done e i \<longrightarrow> splitLoop e p rd chunks tot i d = (Inl Cancelled, d, rd))
   \<and> (metadata s modelID = Some m \<and> k < length (Chunks m) \<and> ctx_done e k
      \<and> (\<forall>j<k. \<not> ctx_done e j
             \<and> os_ReadChunk e d (chunkPath (filepath_Join (basePath s) modelID) j) = Inr (data j)
             \<and> w j = None) \<longrightarrow>
      StreamModel e w s d modelID = (Some Cancelled, concat (map data [0..<k])))
   \<and> (i < n \<and> ctx_done e i \<longrightarrow> streamLoop e w d p n i out = (Some Cancelled, out))"
proof (intro conjI impI)
  let ?P = "filepath_Join (basePath s) (uuid e 0)"
  assume h: "(\<forall>x\<in>set ps. length x \<le> ChunkSize)
      \<and> (\<forall>j<length ps. \<not> ctx_done e j \<and> write_err e ?P j = None)
      \<and> mkdir_err e ?P = None \<and> ctx_done e (length ps)"
  obtain d1 where mk: "os_MkdirAll e d ?P = (None, d1)"
    using h by (simp add: os_MkdirAll_def)
  then obtain dir where dir: "d1 ?P = Some dir"
    using h by (auto simp: os_MkdirAll_def split: option.splits)
  have run: "splitLoop e ?P (map (\<lambda>x. (x, None)) ps @ rest) [] 0 0 d1
      = splitLoop e ?P rest ([] @ map (\<lambda>j. uuid e (Suc j)) [0..<0 + length ps])
          (0 + of_nat (length (concat ps))) (0 + length ps) (d1(?P \<mapsto> put_chunks dir 0 ps))"
    using h dir by (intro splitLoop_prefix) auto
  have stop: "splitLoop e ?P rest ([] @ map (\<lambda>j. uuid e (Suc j)) [0..<0 + length ps])
          (0 + of_nat (length (concat ps))) (0 + length ps) (d1(?P \<mapsto> put_chunks dir 0 ps))
      = (Inl Cancelled, d1(?P \<mapsto> put_chunks dir 0 ps), rest)"
    using h by (subst splitLoop.simps) simp
  show "\<exists>d'. StoreModel sha e s d name format (map (\<lambda>x. (x, None)) ps @ rest)
              = (Inl Cancelled, s, d', rest)"
    using mk run stop by (simp add: StoreModel_def splitAndStoreChunks_def Let_def)
next
  assume "ctx_done e i"
  then show "splitLoop e p rd chunks tot i d = (Inl Cancelled, d, rd)"
    by (subst splitLoop.simps) simp
next
  let ?p = "filepath_Join (basePath s) modelID"
  assume h: "metadata s modelID = Some m \<and> k < length (Chunks m) \<and> ctx_done e k
      \<and> (\<forall>j<k. \<not> ctx_done e j \<and> os_ReadChunk e d (chunkPath ?p j) = Inr (data j) \<and> w j = None)"
  have run: "streamLoop e w d ?p (length (Chunks m)) 0 []
      = streamLoop e w d ?p (length (Chunks m)) k ([] @ concat (map data [0..<k]))"
    using h by (intro streamLoop_prefix) auto
  have stop: "streamLoop e w d ?p (length (Chunks m)) k ([] @ concat (map data [0..<k]))
      = (Some Cancelled, [] @ concat (map data [0..<k]))"
    using h by (subst streamLoop.simps) simp
  show "StreamModel e w s d modelID = (Some Cancelled, concat (map data [0..<k]))"
    using h run stop by (simp add: StreamModel_def getMetadata_def)
next
  assume "i < n \<and> ctx_done e i"
  then show "streamLoop e w d p n i out = (Some Cancelled, out)"
    by (subst streamLoop.simps) simp
qed

theorem cancellation_stops_before_next_chunk_witness:
  "StoreModel (\<lambda>d. d) cancelling_env \<lparr>basePath = ''b'', metadata = Map.empty\<rparr> Map.empty ''n'' ''f''
       [([1], None), ([2], None)]
     = (Inl Cancelled, \<lparr>basePath = ''b'', metadata = Map.empty\<rparr>, Map.empty, [([2], None)])
   \<and> StreamModel cancelling_env (\<lambda>_. None) \<lparr>basePath = ''b'', metadata = [''m'' \<mapsto> example_entry]\<rparr>
       [''b/m'' \<mapsto> [0 \<mapsto> [1], 1 \<mapsto> [2]]] ''m''
     = (Some Cancelled, [1])"
  using cancellation_stops_before_next_chunk [where ps = "[[1]]" and e = cancelling_env
      and s = "\<lparr>basePath = ''b'', metadata = Map.empty\<rparr>" and sha = "\<lambda>d. d"
      and d = Map.empty and name = "''n''" and format = "''f''" and rest = "[([2], None)]"]
    cancellation_stops_before_next_chunk [where e = cancelling_env
      and s = "\<lparr>basePath = ''b'', metadata = [''m'' \<mapsto> example_entry]\<rparr>"
      and d = "[''b/m'' \<mapsto> [0 \<mapsto> [1], 1 \<mapsto> [2]]]" and modelID = "''m''"
      and m = example_entry and k = 1 and data = "\<lambda>j. [1]" and w = "\<lambda>_. None"]
  by (simp add: eval_defs cancelling_env_def example_entry_def)

text \<open>
  Claim C5. When \<open>DeleteModel\<close> returns no error, \<open>GetModel\<close> on the storage it
  leaves fails with "model not found" for that identifier, and the object's directory
  is no longer on the disk. When the identifier is not in the catalog, \<open>DeleteModel\<close>
  fails with "model not found" and leaves the storage and the disk as they were.
\<close>

theorem DeleteModel_finality:
  "(DeleteModel e s d modelID = (None, s', d') \<longrightarrow>
      GetModel s' modelID = Inl (ModelNotFound modelID)
      \<and> d' (filepath_Join (basePath s) modelID) = None
      \<and> basePath s' = basePath s)
   \<and> (metadata s modelID = None \<longrightarrow>
      DeleteModel e s d modelID = (Some (ModelNotFound modelID), s, d))"
  by (auto simp: DeleteModel_def GetModel_def getMetadata_def os_RemoveAll_def Let_def
           split: option.splits)

theorem DeleteModel_finality_witness:
  "DeleteModel quiet_env \<lparr>basePath = ''b'', metadata = [''m'' \<mapsto> example_entry]\<rparr>
       [''b/m'' \<mapsto> [0 \<mapsto> [1], 1 \<mapsto> [2]]] ''m''
     = (None, \<lparr>basePath = ''b'', metadata = Map.empty\<rparr>, Map.empty)
   \<and> GetModel \<lparr>basePath = ''b'', metadata = Map.empty\<rparr> ''m'' = Inl (ModelNotFound ''m'')
   \<and> DeleteModel quiet_env \<lparr>basePath = ''b'', metadata = Map.empty\<rparr> Map.empty ''m''
     = (Some (ModelNotFound ''m''), \<lparr>basePath = ''b'', metadata = Map.empty\<rparr>, Map.empty)"
  using DeleteModel_finality [of quiet_env
      "\<lparr>basePath = ''b'', metadata = [''m'' \<mapsto> example_entry]\<rparr>"
      "[''b/m'' \<mapsto> [0 \<mapsto> [1], 1 \<mapsto> [2]]]" "''m''"
      "\<lparr>basePath = ''b'', metadata = Map.empty\<rparr>" Map.empty]
    DeleteModel_finality [of quiet_env "\<lparr>basePath = ''b'', metadata = Map.empty\<rparr>"
      Map.empty "''m''"]
  by (simp add: DeleteModel_def os_RemoveAll_def quiet_env_def filepath_Join_def)

section \<open>Properties of the overlay network\<close>

text \<open>The comparisons of the backoff with the ceiling, and the delays in nanoseconds.\<close>

lemma ceiling_not_reached: "j \<le> 5 \<Longrightarrow> \<not> (Minute <s 2 ^ j * Second)"
proof -
  assume "j \<le> 5"
  then consider "j = 0" | "j = 1" | "j = 2" | "j = 3" | "j = 4" | "j = 5"
    by linarith
  then show ?thesis
    by cases (simp_all add: Minute_def Second_def word_sless_alt)
qed

lemma ceiling_exceeded: "Minute <s 64 * Second"
  by (simp add: Minute_def Second_def word_sless_alt)

lemma doubling_delays: "map (\<lambda>i. 2 ^ i * Second) [0..<6] = [Second, 2 * Second, 4 * Second, 8 * Second, 16 * Second, 32 * Second]"
proof -
  have "[0..<6] = [0, 1, 2, 3, 4, 5 :: nat]"
    by code_simp
  then show ?thesis
    by simp
qed

lemma delays_in_nanoseconds: "map sint [Second, 2 * Second, 4 * Second, 8 * Second, 16 * Second, 32 * Second, Minute]
   = [1000000000, 2000000000, 4000000000, 8000000000, 16000000000, 32000000000, 60000000000]"
  by (simp add: Second_def Minute_def)

text \<open>
  From any backoff \<open>2^j\<close> seconds with \<open>j \<le> 6\<close> the loop returns, and its sleeps are
  the next delays of the doubling sequence.
\<close>

lemma backoffLoop_steps:
  assumes "j \<le> 6"
  shows "\<exists>err n' t' k. backoffLoop ne p Minute n t (2 ^ j * Second) sl
           = Some (err, n', t', sl @ take k (map (\<lambda>i. 2 ^ i * Second) [j..<6]))"
  using assms
proof (induction "6 - j" arbitrary: j n t sl)
  case 0
  then have j: "j = 6" by simp
  show ?case
    unfolding j
    by (subst backoffLoop.simps) (auto simp: ceiling_exceeded split: prod.splits option.splits)
next
  case (Suc m)
  then have j: "j \<le> 5" and m: "m = 6 - Suc j" and j': "Suc j \<le> 6"
    by simp_all
  have upt: "[j..<6] = j # [Suc j..<6]"
    using j by (simp add: upt_conv_Cons)
  show ?case
  proof (cases "net_ctx_done ne t")
    case True
    then have "backoffLoop ne p Minute n t (2 ^ j * Second) sl = Some (Some Cancelled, n, Suc t, sl @ take 0 (map (\<lambda>i. 2 ^ i * Second) [j..<6]))"
      by (subst backoffLoop.simps) simp
    then show ?thesis by blast
  next
    case nd: False
    show ?thesis
    proof (cases "host_Connect ne p t")
      case None
      with nd have "backoffLoop ne p Minute n t (2 ^ j * Second) sl
          = Some (None, n\<lparr>peers := (peers n)(AddrInfo_ID p \<mapsto> p)\<rparr>, Suc t, sl @ take 0 (map (\<lambda>i. 2 ^ i * Second) [j..<6]))"
        by (subst backoffLoop.simps) (simp add: connectToPeer_def)
      then show ?thesis by blast
    next
      case (Some er)
      have step: "backoffLoop ne p Minute n t (2 ^ j * Second) sl
          = backoffLoop ne p Minute n (Suc t) (2 ^ Suc j * Second) (sl @ [2 ^ j * Second])"
        using nd Some ceiling_not_reached [OF j]
        by (subst backoffLoop.simps) (simp add: connectToPeer_def mult.commute mult.left_commute)
      obtain err n' t' k where
        "backoffLoop ne p Minute n (Suc t) (2 ^ Suc j * Second) (sl @ [2 ^ j * Second])
           = Some (err, n', t', (sl @ [2 ^ j * Second]) @ take k (map (\<lambda>i. 2 ^ i * Second) [Suc j..<6]))"
        using Suc.hyps(1) [OF m j'] by blast
      with step have "backoffLoop ne p Minute n t (2 ^ j * Second) sl
           = Some (err, n', t', sl @ take (Suc k) (map (\<lambda>i. 2 ^ i * Second) [j..<6]))"
        by (simp add: upt)
      then show ?thesis by blast
    qed
  qed
qed


lemma connectToPeerWithBackoff_returns:
  "\<exists>err n' t' k. connectToPeerWithBackoff ne n t p
     = Some (err, n', t', take k [Second, 2 * Second, 4 * Second, 8 * Second, 16 * Second, 32 * Second])"
  using backoffLoop_steps [of 0 ne p n t "[]"]
  by (simp add: connectToPeerWithBackoff_def doubling_delays)

lemma backoffLoop_retry:
  assumes "\<not> net_ctx_done ne t" and "host_Connect ne p t = Some er" and "\<not> (maxB <s b)"
  shows "backoffLoop ne p maxB n t b sl = backoffLoop ne p maxB n (Suc t) (b * 2) (sl @ [b])"
  using assms by (subst backoffLoop.simps) (simp add: connectToPeer_def)

lemma backoffLoop_give_up:
  assumes "\<not> net_ctx_done ne t" and "host_Connect ne p t = Some er" and "maxB <s b"
  shows "backoffLoop ne p maxB n t b sl = Some (Some (MaxBackoffReached er), n, Suc t, sl)"
  using assms by (subst backoffLoop.simps) (simp add: connectToPeer_def)

lemma connectToPeerWithBackoff_unreachable:
  assumes "\<forall>k<7. \<not> net_ctx_done ne (t + k) \<and> host_Connect ne p (t + k) = Some (fails k)"
  shows "connectToPeerWithBackoff ne n t p
     = Some (Some (MaxBackoffReached (fails 6)), n, t + 7,
         [Second, 2 * Second, 4 * Second, 8 * Second, 16 * Second, 32 * Second])"
proof -
  have at: "\<not> net_ctx_done ne (t + k)" "host_Connect ne p (t + k) = Some (fails k)" if "k < 7" for k
    using assms that by simp_all
  have a0: "\<not> net_ctx_done ne t" "host_Connect ne p t = Some (fails 0)"
    using at [of 0] by simp_all
  have a1: "\<not> net_ctx_done ne (Suc t)" "host_Connect ne p (Suc t) = Some (fails 1)"
    using at [of 1] by simp_all
  have a2: "\<not> net_ctx_done ne (Suc (Suc t))" "host_Connect ne p (Suc (Suc t)) = Some (fails 2)"
    using at [of 2] by (simp_all add: numeral_2_eq_2)
  have a3: "\<not> net_ctx_done ne (Suc (Suc (Suc t)))"
    "host_Connect ne p (Suc (Suc (Suc t))) = Some (fails 3)"
    using at [of 3] by (simp_all add: numeral_3_eq_3)
  have a4: "\<not> net_ctx_done ne (Suc (Suc (Suc (Suc t))))"
    "host_Connect ne p (Suc (Suc (Suc (Suc t)))) = Some (fails 4)"
    using at [of 4] by (simp_all add: eval_nat_numeral)
  have a5: "\<not> net_ctx_done ne (Suc (Suc (Suc (Suc (Suc t)))))"
    "host_Connect ne p (Suc (Suc (Suc (Suc (Suc t))))) = Some (fails 5)"
    using at [of 5] by (simp_all add: eval_nat_numeral)
  have a6: "\<not> net_ctx_done ne (Suc (Suc (Suc (Suc (Suc (Suc t))))))"
    "host_Connect ne p (Suc (Suc (Suc (Suc (Suc (Suc t)))))) = Some (fails 6)"
    using at [of 6] by (simp_all add: eval_nat_numeral)
  have cmp: "\<not> Minute <s Second" "\<not> Minute <s Second * 2" "\<not> Minute <s Second * 2 * 2"
    "\<not> Minute <s Second * 2 * 2 * 2" "\<not> Minute <s Second * 2 * 2 * 2 * 2"
    "\<not> Minute <s Second * 2 * 2 * 2 * 2 * 2" "Minute <s Second * 2 * 2 * 2 * 2 * 2 * 2"
    by (simp_all add: Minute_def Second_def word_sless_alt)
  have "backoffLoop ne p Minute n t Second []
      = Some (Some (MaxBackoffReached (fails 6)), n, Suc (Suc (Suc (Suc (Suc (Suc (Suc t)))))),
          [Second, Second * 2, Second * 2 * 2, Second * 2 * 2 * 2, Second * 2 * 2 * 2 * 2,
           Second * 2 * 2 * 2 * 2 * 2])"
    by (simp only: backoffLoop_retry [OF a0 cmp(1)] backoffLoop_retry [OF a1 cmp(2)]
        backoffLoop_retry [OF a2 cmp(3)] backoffLoop_retry [OF a3 cmp(4)]
        backoffLoop_retry [OF a4 cmp(5)] backoffLoop_retry [OF a5 cmp(6)]
        backoffLoop_give_up [OF a6 cmp(7)] append.simps)
  then show ?thesis
    by (simp add: connectToPeerWithBackoff_def mult.commute)
qed

lemma bootstrapLoop_attempts_all:
  "\<exists>n' t' log'. bootstrapLoop ne addrs n t log = Some (n', t', log')
      \<and> map fst log' = map fst log @ parsed_peers ne addrs"
proof (induction addrs arbitrary: n t log)
  case Nil
  then show ?case by simp
next
  case (Cons addr addrs)
  show ?case
  proof (cases "NewMultiaddr ne addr")
    case (Inl er)
    then show ?thesis using Cons.IH [of n t log] by simp
  next
    case (Inr maddr)
    show ?thesis
    proof (cases "AddrInfoFromP2pAddr ne maddr")
      case (Inl er)
      with Inr show ?thesis using Cons.IH [of n t log] by simp
    next
      case peer: (Inr peerInfo)
      obtain err n1 t1 k where conn: "connectToPeerWithBackoff ne n t peerInfo
          = Some (err, n1, t1, take k [Second, 2 * Second, 4 * Second, 8 * Second, 16 * Second, 32 * Second])"
        using connectToPeerWithBackoff_returns by blast
      show ?thesis
        using Inr peer conn
          Cons.IH [of n1 t1 "log @ [(peerInfo, err, take k [Second, 2 * Second, 4 * Second, 8 * Second, 16 * Second, 32 * Second])]"]
        by simp
    qed
  qed
qed

text \<open>
  Claim C6. \<open>connectToPeerWithBackoff\<close> always returns, and the delays it has slept
  are an initial part of 1, 2, 4, 8, 16, 32 seconds, each the double of the one
  before and none above the ceiling of 60 seconds. Against a peer whose seven
  attempts all fail (and with the context never done) it sleeps all six delays and,
  the next delay of 64 seconds being above the ceiling, returns "max backoff
  reached" around the last connection error. \<open>connectToBootstrapPeers\<close> always
  returns \<open>nil\<close>, having handed every configured peer whose address parses to the
  backoff loop, whatever the earlier peers returned.
\<close>

theorem backoff_terminates_at_ceiling:
  "(\<exists>err n' t' k. connectToPeerWithBackoff ne n t peerInfo
       = Some (err, n', t', take k [Second, 2 * Second, 4 * Second, 8 * Second, 16 * Second, 32 * Second]))
   \<and> ((\<forall>k<7. \<not> net_ctx_done ne (t + k) \<and> host_Connect ne peerInfo (t + k) = Some (fails k)) \<longrightarrow>
       connectToPeerWithBackoff ne n t peerInfo
         = Some (Some (MaxBackoffReached (fails 6)), n, t + 7,
             [Second, 2 * Second, 4 * Second, 8 * Second, 16 * Second, 32 * Second]))
   \<and> map sint [Second, 2 * Second, 4 * Second, 8 * Second, 16 * Second, 32 * Second, Minute]
       = [1000000000, 2000000000, 4000000000, 8000000000, 16000000000, 32000000000, 60000000000]
   \<and> (\<exists>n' t' log. connectToBootstrapPeers ne n t = Some (None, n', t', log)
         \<and> map fst log = parsed_peers ne (BootstrapPeers (cfg n)))"
proof (intro conjI impI)
  show "\<exists>err n' t' k. connectToPeerWithBackoff ne n t peerInfo
       = Some (err, n', t', take k [Second, 2 * Second, 4 * Second, 8 * Second, 16 * Second, 32 * Second])"
    by (rule connectToPeerWithBackoff_returns)
next
  assume "\<forall>k<7. \<not> net_ctx_done ne (t + k) \<and> host_Connect ne peerInfo (t + k) = Some (fails k)"
  then show "connectToPeerWithBackoff ne n t peerInfo
         = Some (Some (MaxBackoffReached (fails 6)), n, t + 7,
             [Second, 2 * Second, 4 * Second, 8 * Second, 16 * Second, 32 * Second])"
    by (rule connectToPeerWithBackoff_unreachable)
next
  show "map sint [Second, 2 * Second, 4 * Second, 8 * Second, 16 * Second, 32 * Second, Minute]
       = [1000000000, 2000000000, 4000000000, 8000000000, 16000000000, 32000000000, 60000000000]"
    by (simp add: Second_def Minute_def)
next
  obtain n' t' log where "bootstrapLoop ne (BootstrapPeers (cfg n)) n t [] = Some (n', t', log)"
    and "map fst log = parsed_peers ne (BootstrapPeers (cfg n))"
    using bootstrapLoop_attempts_all [of ne "BootstrapPeers (cfg n)" n t "[]"] by auto
  then show "\<exists>n' t' log. connectToBootstrapPeers ne n t = Some (None, n', t', log)
         \<and> map fst log = parsed_peers ne (BootstrapPeers (cfg n))"
    by (simp add: connectToBootstrapPeers_def)
qed

text \<open>
  The peer \<open>a1\<close> is unreachable and \<open>bad\<close> does not parse: \<open>a1\<close> ends in "max backoff
  reached" after the six delays, and \<open>a2\<close> is still attempted and connected.
\<close>

theorem backoff_terminates_at_ceiling_witness:
  "connectToPeerWithBackoff example_netenv example_net 0 \<lparr>AddrInfo_ID = ''a1'', AddrInfo_Addrs = [''a1'']\<rparr>
     = Some (Some (MaxBackoffReached (IOFailure ''unreachable'')), example_net, 7,
         [Second, 2 * Second, 4 * Second, 8 * Second, 16 * Second, 32 * Second])
   \<and> connectToBootstrapPeers example_netenv example_net 0
     = Some (None,
         example_net\<lparr>peers := [''a2'' \<mapsto> \<lparr>AddrInfo_ID = ''a2'', AddrInfo_Addrs = [''a2'']\<rparr>]\<rparr>, 8,
         [(\<lparr>AddrInfo_ID = ''a1'', AddrInfo_Addrs = [''a1'']\<rparr>,
           Some (MaxBackoffReached (IOFailure ''unreachable'')),
           [Second, 2 * Second, 4 * Second, 8 * Second, 16 * Second, 32 * Second]),
          (\<lparr>AddrInfo_ID = ''a2'', AddrInfo_Addrs = [''a2'']\<rparr>, None, [])])
   \<and> parsed_peers example_netenv (BootstrapPeers (cfg example_net))
     = [\<lparr>AddrInfo_ID = ''a1'', AddrInfo_Addrs = [''a1'']\<rparr>,
        \<lparr>AddrInfo_ID = ''a2'', AddrInfo_Addrs = [''a2'']\<rparr>]"
proof -
  have first: "connectToPeerWithBackoff example_netenv example_net 0
        \<lparr>AddrInfo_ID = ''a1'', AddrInfo_Addrs = [''a1'']\<rparr>
     = Some (Some (MaxBackoffReached (IOFailure ''unreachable'')), example_net, 7,
         [Second, 2 * Second, 4 * Second, 8 * Second, 16 * Second, 32 * Second])"
    using backoff_terminates_at_ceiling [where ne = example_netenv and n = example_net and t = 0
        and peerInfo = "\<lparr>AddrInfo_ID = ''a1'', AddrInfo_Addrs = [''a1'']\<rparr>"
        and fails = "\<lambda>_. IOFailure ''unreachable''"]
    by (simp add: example_netenv_def)
  have second: "connectToPeerWithBackoff example_netenv example_net 7
        \<lparr>AddrInfo_ID = ''a2'', AddrInfo_Addrs = [''a2'']\<rparr>
     = Some (None, example_net\<lparr>peers := [''a2'' \<mapsto> \<lparr>AddrInfo_ID = ''a2'', AddrInfo_Addrs = [''a2'']\<rparr>]\<rparr>,
         8, [])"
    unfolding connectToPeerWithBackoff_def
    by (subst backoffLoop.simps) (simp add: example_netenv_def connectToPeer_def example_net_def)
  show ?thesis
    using first second
    by (simp add: connectToBootstrapPeers_def example_net_def [symmetric])
      (simp add: example_net_def example_netenv_def first [unfolded example_net_def example_netenv_def]
        second [unfolded example_net_def example_netenv_def])
qed

text \<open>
  Claim C7. The messages for which the receive loop starts a handler are exactly
  the messages \<open>Next\<close> handed to it whose sender (\<open>ReceivedFrom\<close>) differs from the
  node's own identity, in the order of arrival: a message received from the node
  itself is never handed to \<open>processMessage\<close>, and every other received message is.
\<close>

theorem handleMessages_filters_own:
  "handleMessages n results started
     = started @ filter (\<lambda>msg. ReceivedFrom msg \<noteq> host_ID n) (received results)
   \<and> (\<forall>msg \<in> set (received results).
        (ReceivedFrom msg = host_ID n \<longrightarrow> msg \<notin> set (handleMessages n results []))
        \<and> (ReceivedFrom msg \<noteq> host_ID n \<longrightarrow> msg \<in> set (handleMessages n results [])))"
proof -
  have eq: "handleMessages n results acc
     = acc @ filter (\<lambda>msg. ReceivedFrom msg \<noteq> host_ID n) (received results)" for acc
    by (induction n results acc rule: handleMessages.induct) auto
  show ?thesis
    by (simp add: eq)
qed

theorem handleMessages_filters_own_witness:
  "handleMessages example_net
      [Delivered \<lparr>ReceivedFrom = ''self'', Message_Data = [1]\<rparr>,
       NextError False,
       Delivered \<lparr>ReceivedFrom = ''peer'', Message_Data = [2]\<rparr>,
       NextError True,
       Delivered \<lparr>ReceivedFrom = ''peer'', Message_Data = [3]\<rparr>] []
    = [\<lparr>ReceivedFrom = ''peer'', Message_Data = [2]\<rparr>]
   \<and> received
      [Delivered \<lparr>ReceivedFrom = ''self'', Message_Data = [1]\<rparr>,
       NextError False,
       Delivered \<lparr>ReceivedFrom = ''peer'', Message_Data = [2]\<rparr>,
       NextError True,
       Delivered \<lparr>ReceivedFrom = ''peer'', Message_Data = [3]\<rparr>]
    = [\<lparr>ReceivedFrom = ''self'', Message_Data = [1]\<rparr>,
       \<lparr>ReceivedFrom = ''peer'', Message_Data = [2]\<rparr>]"
  using handleMessages_filters_own [of example_net
      "[Delivered \<lparr>ReceivedFrom = ''self'', Message_Data = [1]\<rparr>,
       NextError False,
       Delivered \<lparr>ReceivedFrom = ''peer'', Message_Data = [2]\<rparr>,
       NextError True,
       Delivered \<lparr>ReceivedFrom = ''peer'', Message_Data = [3]\<rparr>]" "[]"]
  by (simp add: example_net_def)

end
